theory Spec2Isabelle
  imports Complex_Main
begin

section \<open>Fractional Core: the codec of \<open>src/fractional-core.js\<close>\<close>

subsection \<open>JavaScript strings and values\<close>

text \<open>
  A JavaScript string is a sequence of UTF-16 code units; \<open>split('')\<close>, \<open>charCodeAt\<close>,
  \<open>===\<close> and \<open>length\<close> all work on code units. A string is modelled as the list of its
  code units (numbers below 65536). \<open>ascii\<close> turns an ASCII literal into such a list; the
  few non-ASCII characters of the catalogue are written by their code unit
  (8730 is the root sign, 8722 the minus sign of \<open>|-1|\<close>, 92 the backslash).
\<close>

type_synonym jsstring = "nat list"

definition ascii :: "string \<Rightarrow> jsstring" where
  "ascii s = map of_char s"

text \<open>The values a caller can pass where the code only tests truthiness or stores the value.\<close>

datatype jsval =
    JSUndefined
  | JSNull
  | JSBool bool
  | JSNumber real
  | JSNaN
  | JSString jsstring
  | JSObject

fun truthy :: "jsval \<Rightarrow> bool" where
  "truthy JSUndefined = False"
| "truthy JSNull = False"
| "truthy (JSBool b) = b"
| "truthy (JSNumber x) = (x \<noteq> 0)"
| "truthy JSNaN = False"
| "truthy (JSString s) = (s \<noteq> [])"
| "truthy JSObject = True"

text \<open>\<open>throw new Error(message)\<close>: the only exception the class raises.\<close>

datatype error = Error string

subsection \<open>Instance state\<close>

text \<open>
  The three fields the constructor sets. \<open>verificationCount\<close> is a JavaScript number that
  only ever counts up from 0 by 1, so it is a natural number here (exact below \<open>2^53\<close>).
  Console output and the timestamp read by \<open>logVerification\<close> are not part of the model.
\<close>

record fc_state =
  covenantAccepted :: bool
  institutionId :: jsval
  verificationCount :: nat

definition constructor :: fc_state where
  "constructor = \<lparr>covenantAccepted = False, institutionId = JSNull, verificationCount = 0\<rparr>"

text \<open>
  The agreement passed to \<open>acceptCovenant\<close> is an object, of which the method reads the
  field \<open>humanitarianCommitment\<close> only. (A call with \<open>null\<close> or \<open>undefined\<close> in its
  place raises a \<open>TypeError\<close> on that read, before any assignment.)
\<close>

record agreement =
  humanitarianCommitment :: jsval

definition acceptCovenant :: "fc_state \<Rightarrow> jsval \<Rightarrow> agreement \<Rightarrow> error + (bool \<times> fc_state)" where
  "acceptCovenant st instId covenantAgreement =
     (if \<not> truthy (humanitarianCommitment covenantAgreement)
      then Inl (Error ''Covenant requires commitment to humanity's betterment'')
      else Inr (True, st\<lparr>covenantAccepted := True, institutionId := instId\<rparr>))"

text \<open>
  \<open>logVerification\<close> increments the counter; the record it returns is dropped by every
  caller, so the model keeps the state only.
\<close>

definition logVerification :: "fc_state \<Rightarrow> fc_state" where
  "logVerification st = st\<lparr>verificationCount := verificationCount st + 1\<rparr>"

subsection \<open>The catalogue\<close>

text \<open>
  An entry is \<open>{ expr, latex, value, note }\<close>. The \<open>value\<close> closure takes no argument and
  reads no state, so it is the number it computes. JavaScript computes it in IEEE double
  arithmetic; the model computes it in the reals. For the entries of the catalogue both give
  exactly 1: every root is of a perfect square, and \<open>0.1 * 10\<close> rounds to \<open>1\<close> in doubles.
\<close>

record fraction =
  expr :: jsstring
  latex :: jsstring
  val :: real
  note_text :: "jsstring option"

fun factorial :: "nat \<Rightarrow> nat" where
  "factorial n = (if n = 0 then 1 else n * factorial (n - 1))"

definition getStandardFractions :: "fraction list" where
  "getStandardFractions = [
    \<lparr>expr = [8730] @ ascii ''1'', latex = [92] @ ascii ''sqrt{1}'', val = sqrt 1, note_text = None\<rparr>,
    \<lparr>expr = ascii ''0!'', latex = ascii ''0!'', val = real (factorial 0), note_text = None\<rparr>,
    \<lparr>expr = ascii ''|'' @ [8722] @ ascii ''1|'', latex = ascii ''|{-1}|'', val = \<bar>- 1\<bar>, note_text = None\<rparr>,
    \<lparr>expr = ascii ''7^0'', latex = ascii ''7^0'', val = 7 ^ (0::nat), note_text = None\<rparr>,
    \<lparr>expr = ascii ''(2+2)/4'', latex = [92] @ ascii ''frac{2+2}{4}'', val = (2 + 2) / 4, note_text = None\<rparr>,
    \<lparr>expr = ascii ''1/1'', latex = [92] @ ascii ''frac{1}{1}'', val = 1 / 1, note_text = None\<rparr>,
    \<lparr>expr = ascii ''2-1'', latex = ascii ''2-1'', val = 2 - 1, note_text = None\<rparr>,
    \<lparr>expr = [8730] @ ascii ''4/2'', latex = [92] @ ascii ''frac{'' @ [92] @ ascii ''sqrt{4}}{2}'', val = sqrt 4 / 2, note_text = None\<rparr>,
    \<lparr>expr = ascii ''(3-1)/2'', latex = [92] @ ascii ''frac{3-1}{2}'', val = (3 - 1) / 2, note_text = None\<rparr>,
    \<lparr>expr = [8730] @ ascii ''9/3'', latex = [92] @ ascii ''frac{'' @ [92] @ ascii ''sqrt{9}}{3}'', val = sqrt 9 / 3, note_text = None\<rparr>,
    \<lparr>expr = ascii ''0.25*4'', latex = ascii ''0.25 '' @ [92] @ ascii ''times 4'', val = 0.25 * 4, note_text = None\<rparr>,
    \<lparr>expr = ascii ''0.1*10'', latex = ascii ''0.1 '' @ [92] @ ascii ''times 10'', val = 0.1 * 10, note_text = None\<rparr>,
    \<lparr>expr = [8730] @ ascii ''16/4'', latex = [92] @ ascii ''frac{'' @ [92] @ ascii ''sqrt{16}}{4}'', val = sqrt 16 / 4, note_text = None\<rparr>,
    \<lparr>expr = [8730] @ ascii ''25/5'', latex = [92] @ ascii ''frac{'' @ [92] @ ascii ''sqrt{25}}{5}'', val = sqrt 25 / 5, note_text = None\<rparr>,
    \<lparr>expr = ascii ''(6-4)/2'', latex = [92] @ ascii ''frac{6-4}{2}'', val = (6 - 4) / 2, note_text = None\<rparr>,
    \<lparr>expr = [8730] @ ascii ''36/6'', latex = [92] @ ascii ''frac{'' @ [92] @ ascii ''sqrt{36}}{6}'', val = sqrt 36 / 6, note_text = None\<rparr>
  ]"

definition getAdvancedFractions :: "fraction list" where
  "getAdvancedFractions = [
    \<lparr>expr = [8747] @ ascii ''(dx)'', latex = [92] @ ascii ''int dx'', val = 1, note_text = Some (ascii ''Definite integral from 0 to 1'')\<rparr>,
    \<lparr>expr = ascii ''lim(x'' @ [8594] @ ascii ''1) x'', latex = [92] @ ascii ''lim_{x '' @ [92] @ ascii ''to 1} x'', val = 1, note_text = None\<rparr>,
    \<lparr>expr = ascii ''sin'' @ [178] @ [952] @ ascii '' + cos'' @ [178] @ [952], latex = [92] @ ascii ''sin^2'' @ [92] @ ascii ''theta + '' @ [92] @ ascii ''cos^2'' @ [92] @ ascii ''theta'', val = 1, note_text = Some ([952] @ ascii '' = any angle'')\<rparr>,
    \<lparr>expr = ascii ''e^(ln1)'', latex = ascii ''e^{'' @ [92] @ ascii ''ln 1}'', val = exp (ln 1), note_text = None\<rparr>,
    \<lparr>expr = ascii ''det(I)'', latex = [92] @ ascii ''det(I)'', val = 1, note_text = Some (ascii ''Determinant of identity matrix'')\<rparr>
  ]"

subsection \<open>verify\<close>

text \<open>
  \<open>verify(expression, expectedValue = 1)\<close> has two parameters; a third argument of a call
  is ignored by JavaScript. The tolerance is the literal \<open>0.0001\<close> in the body. Nothing
  inside the \<open>try\<close> block throws, so the \<open>catch\<close> branch is never taken.
\<close>

definition verify :: "fc_state \<Rightarrow> jsstring \<Rightarrow> real \<Rightarrow> error + (bool \<times> fc_state)" where
  "verify st expression expectedValue =
     (if \<not> covenantAccepted st
      then Inl (Error ''Must accept Memorial Covenant before verification'')
      else (case find (\<lambda>f. expr f = expression) getStandardFractions of
              Some match \<Rightarrow>
                (let result = val match;
                     st' = logVerification st
                 in Inr (\<bar>result - expectedValue\<bar> < 0.0001, st'))
            | None \<Rightarrow> Inr (False, st)))"

subsection \<open>encode\<close>

text \<open>
  \<open>n.toString(2)\<close> for a code unit \<open>n\<close>, and \<open>s.padStart(targetLength, c)\<close> for a
  one-character pad string: a string already as long as the target is returned unchanged.
  The characters \<open>'0'\<close> and \<open>'1'\<close> are the code units 48 and 49.
\<close>

fun toString2 :: "nat \<Rightarrow> jsstring" where
  "toString2 n = (if n < 2 then [48 + n] else toString2 (n div 2) @ [48 + n mod 2])"

definition padStart :: "jsstring \<Rightarrow> nat \<Rightarrow> nat \<Rightarrow> jsstring" where
  "padStart s targetLength c = replicate (targetLength - length s) c @ s"

definition binary_of :: "jsstring \<Rightarrow> jsstring" where
  "binary_of text = concat (map (\<lambda>char. padStart (toString2 char) 8 48) text)"

text \<open>
  The loop over the bits, with \<open>fractionIndex\<close> as the loop variable. Both pools the
  caller can select are non-empty, so the index \<open>fractionIndex % fractions.length\<close> is in
  range.
\<close>

fun encode_loop :: "fraction list \<Rightarrow> jsstring \<Rightarrow> nat \<Rightarrow> jsstring list" where
  "encode_loop fractions [] fractionIndex = []"
| "encode_loop fractions (b # rest) fractionIndex =
     (if b = 49
      then expr (fractions ! (fractionIndex mod length fractions))
             # encode_loop fractions rest (fractionIndex + 1)
      else ascii ''0'' # encode_loop fractions rest fractionIndex)"

text \<open>\<open>xs.slice(i, j)\<close> for \<open>0 \<le> i \<le> j\<close>; the end is clamped to the length.\<close>

definition slice :: "'a list \<Rightarrow> nat \<Rightarrow> nat \<Rightarrow> 'a list" where
  "slice xs i j = take (j - i) (drop i xs)"

text \<open>
  \<open>formatAsGrid\<close>: the loop \<open>for (i = 0; i < encoded.length; i += width)\<close>. With
  \<open>width = 0\<close> and a non-empty input it never ends, so the result is an option and
  \<open>None\<close> stands for not returning.
\<close>

partial_function (option) formatAsGrid_from ::
  "jsstring list \<Rightarrow> nat \<Rightarrow> nat \<Rightarrow> jsstring list list option" where
  "formatAsGrid_from encoded width i =
     (if i < length encoded
      then Option.bind (formatAsGrid_from encoded width (i + width))
             (\<lambda>rows. Some (slice encoded i (i + width) # rows))
      else Some [])"

definition formatAsGrid :: "jsstring list \<Rightarrow> nat \<Rightarrow> jsstring list list option" where
  "formatAsGrid encoded width = formatAsGrid_from encoded width 0"

definition encode ::
  "fc_state \<Rightarrow> jsstring \<Rightarrow> bool \<Rightarrow> (error + (jsstring list list \<times> fc_state)) option" where
  "encode st text useAdvanced =
     (if \<not> covenantAccepted st
      then Some (Inl (Error ''Must accept Memorial Covenant before encoding''))
      else
        (let fractions = (if useAdvanced then getStandardFractions @ getAdvancedFractions
                          else getStandardFractions);
             binary = binary_of text;
             encoded = encode_loop fractions binary 0;
             st' = logVerification st
         in map_option (\<lambda>grid. Inr (grid, st')) (formatAsGrid encoded 8)))"

subsection \<open>decode\<close>

text \<open>
  The callback of \<open>encodedGrid.flat().map(...)\<close>, run cell by cell from left to right;
  each call of \<open>verify\<close> may count a verification, so the state is threaded through.
  \<open>verify(cell)\<close> takes the default expected value 1.
\<close>

fun decode_cells :: "fc_state \<Rightarrow> jsstring list \<Rightarrow> error + (jsstring \<times> fc_state)" where
  "decode_cells st [] = Inr ([], st)"
| "decode_cells st (cell # cells) =
     (if cell = ascii ''0''
      then (case decode_cells st cells of
              Inl e \<Rightarrow> Inl e
            | Inr (bits, st') \<Rightarrow> Inr (48 # bits, st'))
      else (case verify st cell 1 of
              Inl e \<Rightarrow> Inl e
            | Inr (ok, st1) \<Rightarrow>
                (case decode_cells st1 cells of
                   Inl e \<Rightarrow> Inl e
                 | Inr (bits, st') \<Rightarrow> Inr ((if ok then 49 else 48) # bits, st'))))"

text \<open>
  \<open>parseInt(byte, 2)\<close> reads the longest prefix of binary digits and is \<open>NaN\<close> (here
  \<open>None\<close>) when there is none; \<open>String.fromCharCode\<close> maps \<open>NaN\<close> to code unit 0 and
  a number to its value modulo \<open>2^16\<close>. The bytes \<open>decode\<close> passes consist of the
  characters \<open>'0'\<close> and \<open>'1'\<close> only, so the sign and white-space rules of \<open>parseInt\<close>
  are left out.
\<close>

definition parseInt2 :: "jsstring \<Rightarrow> nat option" where
  "parseInt2 s =
     (let digits = takeWhile (\<lambda>c. c = 48 \<or> c = 49) s
      in if digits = [] then None
         else Some (foldl (\<lambda>acc c. 2 * acc + (c - 48)) 0 digits))"

fun fromCharCode :: "nat option \<Rightarrow> nat" where
  "fromCharCode None = 0"
| "fromCharCode (Some n) = n mod 65536"

function decode_chars :: "jsstring \<Rightarrow> nat \<Rightarrow> jsstring" where
  "decode_chars binary i =
     (if i < length binary
      then (let byte = slice binary i (i + 8)
            in (if length byte = 8 then [fromCharCode (parseInt2 byte)] else [])
               @ decode_chars binary (i + 8))
      else [])"
  by pat_completeness auto
termination
  by (relation "measure (\<lambda>(binary, i). length binary - i)") auto

definition decode :: "fc_state \<Rightarrow> jsstring list list \<Rightarrow> error + (jsstring \<times> fc_state)" where
  "decode st encodedGrid =
     (if \<not> covenantAccepted st
      then Inl (Error ''Must accept Memorial Covenant before decoding'')
      else (case decode_cells st (concat encodedGrid) of
              Inl e \<Rightarrow> Inl e
            | Inr (binary, st1) \<Rightarrow>
                (let chars = decode_chars binary 0
                 in Inr (chars, logVerification st1))))"

subsection \<open>generateIdentitySet\<close>

text \<open>
  The numbers of this method are IEEE doubles holding non-negative integers. An integer
  below \<open>2^53\<close> is a double; a larger one is rounded to the nearest integer with 53
  significant bits, ties to the even one. \<open>round_double\<close> is that rounding, and every
  \<open>+\<close> and \<open>*\<close> of the source is the exact operation followed by it; \<open>%\<close> is exact on
  doubles. A string has fewer than \<open>2^53\<close> code units, each below \<open>2^16\<close>, so every
  number here is below \<open>2^83\<close> and the overflow of doubles is out of reach.
\<close>

fun bit_length :: "nat \<Rightarrow> nat" where
  "bit_length n = (if n = 0 then 0 else Suc (bit_length (n div 2)))"

definition round_double :: "nat \<Rightarrow> nat" where
  "round_double n =
     (if n < 2 ^ 53 then n
      else (let e = bit_length n - 53;
                q = n div 2 ^ e;
                r = n mod 2 ^ e;
                half = 2 ^ (e - 1)
            in if r < half \<or> (r = half \<and> even q) then q * 2 ^ e else (q + 1) * 2 ^ e))"

text \<open>
  The seed is the sum of the code units of \<open>name\<close>; each round applies the linear
  congruential step and pushes the catalogue entry at \<open>seed % allFractions.length\<close>.
  The loop counter \<open>i\<close> counts the entries pushed and stays an exact integer.
\<close>

function identity_loop :: "fraction list \<Rightarrow> int \<Rightarrow> int \<Rightarrow> nat \<Rightarrow> fraction list" where
  "identity_loop allFractions setSize i seed =
     (if i < setSize
      then (let seed' = round_double (round_double (seed * 9301) + 49297) mod 233280;
                index = seed' mod length allFractions
            in allFractions ! index # identity_loop allFractions setSize (i + 1) seed')
      else [])"
  by pat_completeness auto
termination
  by (relation "measure (\<lambda>(allFractions, setSize, i, seed). nat (setSize - i))") auto

definition generateIdentitySet ::
  "fc_state \<Rightarrow> jsstring \<Rightarrow> int \<Rightarrow> error + (fraction list \<times> fc_state)" where
  "generateIdentitySet st name setSize =
     (if \<not> covenantAccepted st
      then Inl (Error ''Must accept Memorial Covenant before identity generation'')
      else
        (let allFractions = getStandardFractions @ getAdvancedFractions;
             seed = foldl (\<lambda>acc char. round_double (acc + char)) 0 name
         in Inr (identity_loop allFractions setSize 0 seed, st)))"

section \<open>Notions used in the statements\<close>

text \<open>The texts of the two pools, in catalogue order.\<close>

definition standard_exprs :: "jsstring list" where
  "standard_exprs = map expr getStandardFractions"

definition advanced_exprs :: "jsstring list" where
  "advanced_exprs = map expr getAdvancedFractions"

text \<open>
  An instance on which \<open>acceptCovenant\<close> has succeeded once, as in the repository's demo.
\<close>

definition demo_state :: fc_state where
  "demo_state = \<lparr>covenantAccepted = True,
                  institutionId = JSString (ascii ''Demo-Institution-2025''),
                  verificationCount = 0\<rparr>"

text \<open>
  The bit \<open>decode\<close> gives a cell, as a character: \<open>'1'\<close> for the text of a standard
  catalogue entry and \<open>'0'\<close> for every other cell.
\<close>

definition bit_of :: "jsstring \<Rightarrow> nat" where
  "bit_of cell = (if cell \<in> set standard_exprs then 49 else 48)"

text \<open>The characters of the complete groups of eight bits, from the left.\<close>

function decode_bytes :: "jsstring \<Rightarrow> jsstring" where
  "decode_bytes bs =
     (if length bs < 8 then []
      else fromCharCode (parseInt2 (take 8 bs)) # decode_bytes (drop 8 bs))"
  by pat_completeness auto
termination
  by (relation "measure length") auto

text \<open>A list cut into rows of \<open>w\<close> cells, the last row holding what remains.\<close>

function chunks :: "nat \<Rightarrow> 'a list \<Rightarrow> 'a list list" where
  "chunks w xs = (if w = 0 \<or> xs = [] then [] else take w xs # chunks w (drop w xs))"
  by pat_completeness auto
termination
  by (relation "measure (\<lambda>(w, xs). length xs)") auto

text \<open>How many cells are the text of a standard catalogue entry.\<close>

definition count_standard :: "jsstring list \<Rightarrow> nat" where
  "count_standard cells = length (filter (\<lambda>cell. cell \<in> set standard_exprs) cells)"

text \<open>The pool \<open>encode\<close> selects: \<open>fractions\<close> in the source.\<close>

definition pool :: "bool \<Rightarrow> fraction list" where
  "pool useAdvanced =
     (if useAdvanced then getStandardFractions @ getAdvancedFractions else getStandardFractions)"

text \<open>The positions of a row whose cell is not the literal \<open>"0"\<close>, counted from 0.\<close>

definition nonzero_positions :: "jsstring list \<Rightarrow> nat list" where
  "nonzero_positions row = filter (\<lambda>i. row ! i \<noteq> ascii ''0'') [0..<length row]"

text \<open>The grid \<open>encode("FC")\<close> returns.\<close>

definition FC_grid :: "jsstring list list" where
  "FC_grid =
    [[ascii ''0'', [8730] @ ascii ''1'', ascii ''0'', ascii ''0'', ascii ''0'', ascii ''0!'',
      ascii ''|'' @ [8722] @ ascii ''1|'', ascii ''0''],
     [ascii ''0'', ascii ''7^0'', ascii ''0'', ascii ''0'', ascii ''0'', ascii ''0'',
      ascii ''(2+2)/4'', ascii ''1/1'']]"

text \<open>
  The generator of \<open>generateIdentitySet\<close> as the specification words it, in exact
  integers: the seed after \<open>k\<close> rounds of the linear congruential step, and the sequence
  selected for a name, whose first seed is the sum of its code units.
\<close>

fun lcg_seed :: "nat \<Rightarrow> nat \<Rightarrow> nat" where
  "lcg_seed seed 0 = seed"
| "lcg_seed seed (Suc k) = (lcg_seed seed k * 9301 + 49297) mod 233280"

definition identity_spec :: "jsstring \<Rightarrow> nat \<Rightarrow> fraction list" where
  "identity_spec name n =
     map (\<lambda>k. (getStandardFractions @ getAdvancedFractions) ! (lcg_seed (sum_list name) (Suc k) mod 21))
       [0..<n]"

text \<open>
  The same generator in the arithmetic of the code: the sum and the step round as doubles
  do.
\<close>

definition double_sum :: "jsstring \<Rightarrow> nat" where
  "double_sum name = foldl (\<lambda>acc char. round_double (acc + char)) 0 name"

definition lcg_step_double :: "nat \<Rightarrow> nat" where
  "lcg_step_double seed = round_double (round_double (seed * 9301) + 49297) mod 233280"

fun lcg_seed_double :: "nat \<Rightarrow> nat \<Rightarrow> nat" where
  "lcg_seed_double seed 0 = seed"
| "lcg_seed_double seed (Suc k) = lcg_step_double (lcg_seed_double seed k)"

definition identity_doubles :: "jsstring \<Rightarrow> nat \<Rightarrow> fraction list" where
  "identity_doubles name n =
     map (\<lambda>k. (getStandardFractions @ getAdvancedFractions)
                 ! (lcg_seed_double (double_sum name) (Suc k) mod 21))
       [0..<n]"

text \<open>
  Calls on one instance, in sequence. An exception leaves the instance as it was: every
  \<open>throw\<close> of the class comes before the first assignment of its method.
\<close>

datatype call =
    AcceptCovenant jsval agreement
  | Encode jsstring bool
  | Verify jsstring real
  | Decode "jsstring list list"
  | GenerateIdentitySet jsstring int

datatype outcome = Returned | Threw error | Diverged

fun step :: "fc_state \<Rightarrow> call \<Rightarrow> outcome \<times> fc_state" where
  "step st (AcceptCovenant instId covenantAgreement) =
     (case acceptCovenant st instId covenantAgreement of
        Inl e \<Rightarrow> (Threw e, st) | Inr (_, st') \<Rightarrow> (Returned, st'))"
| "step st (Encode text useAdvanced) =
     (case encode st text useAdvanced of
        None \<Rightarrow> (Diverged, st)
      | Some (Inl e) \<Rightarrow> (Threw e, st)
      | Some (Inr (_, st')) \<Rightarrow> (Returned, st'))"
| "step st (Verify expression expectedValue) =
     (case verify st expression expectedValue of
        Inl e \<Rightarrow> (Threw e, st) | Inr (_, st') \<Rightarrow> (Returned, st'))"
| "step st (Decode encodedGrid) =
     (case decode st encodedGrid of
        Inl e \<Rightarrow> (Threw e, st) | Inr (_, st') \<Rightarrow> (Returned, st'))"
| "step st (GenerateIdentitySet name setSize) =
     (case generateIdentitySet st name setSize of
        Inl e \<Rightarrow> (Threw e, st) | Inr (_, st') \<Rightarrow> (Returned, st'))"

fun run :: "fc_state \<Rightarrow> call list \<Rightarrow> fc_state" where
  "run st [] = st"
| "run st (c # cs) = run (snd (step st c)) cs"

text \<open>A call of \<open>acceptCovenant\<close> whose agreement carries a truthy commitment.\<close>

fun accepts :: "call \<Rightarrow> bool" where
  "accepts (AcceptCovenant instId covenantAgreement) =
     truthy (humanitarianCommitment covenantAgreement)"
| "accepts _ = False"

text \<open>The agreement of the repository's demo, as far as \<open>acceptCovenant\<close> reads it.\<close>

definition demo_agreement :: agreement where
  "demo_agreement = \<lparr>humanitarianCommitment = JSBool True\<rparr>"

text \<open>The number a string of binary digits denotes, as \<open>parseInt2\<close> accumulates it.\<close>

definition binary_value :: "jsstring \<Rightarrow> nat" where
  "binary_value digits = foldl (\<lambda>acc c. 2 * acc + (c - 48)) 0 digits"

text \<open>The strings made of the characters \<open>'0'\<close> and \<open>'1'\<close> only.\<close>

definition is_binary :: "jsstring \<Rightarrow> bool" where
  "is_binary s = list_all (\<lambda>c. c = 48 \<or> c = 49) s"

text \<open>The grid \<open>encode\<close> returns for the one-character string of the root sign.\<close>

definition root_sign_grid :: "jsstring list list" where
  "root_sign_grid =
    [[[8730] @ ascii ''1'', ascii ''0'', ascii ''0'', ascii ''0'', ascii ''0!'',
      ascii ''0'', ascii ''0'', ascii ''0''],
     [ascii ''0'', ascii ''|'' @ [8722] @ ascii ''1|'', ascii ''7^0'', ascii ''0'',
      ascii ''(2+2)/4'', ascii ''0'']]"

text \<open>
  The grid \<open>encode("~~~", true)\<close> returns: eighteen 1-bits, so the last two draw on the
  advanced entries of the pool.
\<close>

definition tilde_grid :: "jsstring list list" where
  "tilde_grid =
    [[ascii ''0'', [8730] @ ascii ''1'', ascii ''0!'', ascii ''|'' @ [8722] @ ascii ''1|'',
      ascii ''7^0'', ascii ''(2+2)/4'', ascii ''1/1'', ascii ''0''],
     [ascii ''0'', ascii ''2-1'', [8730] @ ascii ''4/2'', ascii ''(3-1)/2'', [8730] @ ascii ''9/3'',
      ascii ''0.25*4'', ascii ''0.1*10'', ascii ''0''],
     [ascii ''0'', [8730] @ ascii ''16/4'', [8730] @ ascii ''25/5'', ascii ''(6-4)/2'',
      [8730] @ ascii ''36/6'', [8747] @ ascii ''(dx)'', ascii ''lim(x'' @ [8594] @ ascii ''1) x'',
      ascii ''0'']]"

text \<open>
  The grid of \<open>"FC"\<close> with the cell \<open>"0!"\<close> at position 5 of the first row replaced by
  \<open>"1-1"\<close>, an expression whose value is 0.
\<close>

definition FC_tampered :: "jsstring list list" where
  "FC_tampered = FC_grid[0 := (FC_grid ! 0)[5 := ascii ''1-1'']]"

section \<open>Properties\<close>

declare toString2.simps [simp del]
declare factorial.simps [simp del]
declare decode_chars.simps [simp del]
declare identity_loop.simps [simp del]
declare bit_length.simps [simp del]
declare decode_bytes.simps [simp del]
declare chunks.simps [simp del]
declare formatAsGrid_from.simps [code]

subsection \<open>The catalogue\<close>

lemma factorial_0: "factorial 0 = 1"
  by (simp add: factorial.simps)

lemma standard_vals: "f \<in> set getStandardFractions \<Longrightarrow> val f = 1"
  by (auto simp add: getStandardFractions_def factorial_0)

lemma advanced_vals: "f \<in> set getAdvancedFractions \<Longrightarrow> val f = 1"
  by (auto simp add: getAdvancedFractions_def)

lemma getStandardFractions_code [code]:
  "getStandardFractions = [
    \<lparr>expr = [8730] @ ascii ''1'', latex = [92] @ ascii ''sqrt{1}'', val = 1, note_text = None\<rparr>,
    \<lparr>expr = ascii ''0!'', latex = ascii ''0!'', val = 1, note_text = None\<rparr>,
    \<lparr>expr = ascii ''|'' @ [8722] @ ascii ''1|'', latex = ascii ''|{-1}|'', val = 1, note_text = None\<rparr>,
    \<lparr>expr = ascii ''7^0'', latex = ascii ''7^0'', val = 1, note_text = None\<rparr>,
    \<lparr>expr = ascii ''(2+2)/4'', latex = [92] @ ascii ''frac{2+2}{4}'', val = 1, note_text = None\<rparr>,
    \<lparr>expr = ascii ''1/1'', latex = [92] @ ascii ''frac{1}{1}'', val = 1, note_text = None\<rparr>,
    \<lparr>expr = ascii ''2-1'', latex = ascii ''2-1'', val = 1, note_text = None\<rparr>,
    \<lparr>expr = [8730] @ ascii ''4/2'', latex = [92] @ ascii ''frac{'' @ [92] @ ascii ''sqrt{4}}{2}'', val = 1, note_text = None\<rparr>,
    \<lparr>expr = ascii ''(3-1)/2'', latex = [92] @ ascii ''frac{3-1}{2}'', val = 1, note_text = None\<rparr>,
    \<lparr>expr = [8730] @ ascii ''9/3'', latex = [92] @ ascii ''frac{'' @ [92] @ ascii ''sqrt{9}}{3}'', val = 1, note_text = None\<rparr>,
    \<lparr>expr = ascii ''0.25*4'', latex = ascii ''0.25 '' @ [92] @ ascii ''times 4'', val = 1, note_text = None\<rparr>,
    \<lparr>expr = ascii ''0.1*10'', latex = ascii ''0.1 '' @ [92] @ ascii ''times 10'', val = 1, note_text = None\<rparr>,
    \<lparr>expr = [8730] @ ascii ''16/4'', latex = [92] @ ascii ''frac{'' @ [92] @ ascii ''sqrt{16}}{4}'', val = 1, note_text = None\<rparr>,
    \<lparr>expr = [8730] @ ascii ''25/5'', latex = [92] @ ascii ''frac{'' @ [92] @ ascii ''sqrt{25}}{5}'', val = 1, note_text = None\<rparr>,
    \<lparr>expr = ascii ''(6-4)/2'', latex = [92] @ ascii ''frac{6-4}{2}'', val = 1, note_text = None\<rparr>,
    \<lparr>expr = [8730] @ ascii ''36/6'', latex = [92] @ ascii ''frac{'' @ [92] @ ascii ''sqrt{36}}{6}'', val = 1, note_text = None\<rparr>
  ]"
  by (simp add: getStandardFractions_def factorial_0)

lemma getAdvancedFractions_code [code]:
  "getAdvancedFractions = [
    \<lparr>expr = [8747] @ ascii ''(dx)'', latex = [92] @ ascii ''int dx'', val = 1, note_text = Some (ascii ''Definite integral from 0 to 1'')\<rparr>,
    \<lparr>expr = ascii ''lim(x'' @ [8594] @ ascii ''1) x'', latex = [92] @ ascii ''lim_{x '' @ [92] @ ascii ''to 1} x'', val = 1, note_text = None\<rparr>,
    \<lparr>expr = ascii ''sin'' @ [178] @ [952] @ ascii '' + cos'' @ [178] @ [952], latex = [92] @ ascii ''sin^2'' @ [92] @ ascii ''theta + '' @ [92] @ ascii ''cos^2'' @ [92] @ ascii ''theta'', val = 1, note_text = Some ([952] @ ascii '' = any angle'')\<rparr>,
    \<lparr>expr = ascii ''e^(ln1)'', latex = ascii ''e^{'' @ [92] @ ascii ''ln 1}'', val = 1, note_text = None\<rparr>,
    \<lparr>expr = ascii ''det(I)'', latex = [92] @ ascii ''det(I)'', val = 1, note_text = Some (ascii ''Determinant of identity matrix'')\<rparr>
  ]"
  by (simp add: getAdvancedFractions_def)

lemma standard_exprs_eq:
  "standard_exprs =
    [[8730, 49], [48, 33], [124, 8722, 49, 124], [55, 94, 48],
     [40, 50, 43, 50, 41, 47, 52], [49, 47, 49], [50, 45, 49], [8730, 52, 47, 50],
     [40, 51, 45, 49, 41, 47, 50], [8730, 57, 47, 51], [48, 46, 50, 53, 42, 52],
     [48, 46, 49, 42, 49, 48], [8730, 49, 54, 47, 52], [8730, 50, 53, 47, 53],
     [40, 54, 45, 52, 41, 47, 50], [8730, 51, 54, 47, 54]]"
  by (simp add: standard_exprs_def getStandardFractions_def ascii_def)

lemma advanced_exprs_eq:
  "advanced_exprs =
    [[8747, 40, 100, 120, 41],
     [108, 105, 109, 40, 120, 8594, 49, 41, 32, 120],
     [115, 105, 110, 178, 952, 32, 43, 32, 99, 111, 115, 178, 952],
     [101, 94, 40, 108, 110, 49, 41],
     [100, 101, 116, 40, 73, 41]]"
  by (simp add: advanced_exprs_def getAdvancedFractions_def ascii_def)

lemma find_expr_None: "find (\<lambda>f. expr f = e) fs = None \<longleftrightarrow> e \<notin> set (map expr fs)"
  by (induction fs) auto

lemma find_expr_Some: "find (\<lambda>f. expr f = e) fs = Some m \<Longrightarrow> m \<in> set fs \<and> expr m = e"
  by (induction fs) (auto split: if_splits)

lemma verify_eq:
  "covenantAccepted st \<Longrightarrow>
   verify st e x = (if e \<in> set standard_exprs then Inr (\<bar>1 - x\<bar> < 0.0001, logVerification st)
                    else Inr (False, st))"
proof (cases "find (\<lambda>f. expr f = e) getStandardFractions")
  case None
  assume "covenantAccepted st"
  moreover from None have "e \<notin> set standard_exprs"
    by (simp add: standard_exprs_def find_expr_None)
  ultimately show ?thesis using None
    by (simp add: verify_def)
next
  case (Some m)
  assume acc: "covenantAccepted st"
  from Some have m: "m \<in> set getStandardFractions" "expr m = e"
    using find_expr_Some by blast+
  then have "e \<in> set standard_exprs" by (auto simp: standard_exprs_def)
  with Some m acc show ?thesis
    by (simp add: verify_def standard_vals)
qed

lemma demo_state_accepted: "covenantAccepted demo_state"
  by (simp add: demo_state_def)

subsection \<open>What the loops compute\<close>

lemma decode_chars_past: "length binary \<le> i \<Longrightarrow> decode_chars binary i = []"
  by (simp add: decode_chars.simps[of binary i])

lemma decode_bytes_short: "length bs < 8 \<Longrightarrow> decode_bytes bs = []"
  by (simp add: decode_bytes.simps[of bs])

lemma decode_bytes_long:
  "8 \<le> length bs \<Longrightarrow>
   decode_bytes bs = fromCharCode (parseInt2 (take 8 bs)) # decode_bytes (drop 8 bs)"
  by (simp add: decode_bytes.simps[of bs])

lemma decode_chars_eq: "decode_chars binary i = decode_bytes (drop i binary)"
proof (induction binary i rule: decode_chars.induct)
  case (1 binary i)
  show ?case
  proof (cases "i < length binary")
    case False
    then show ?thesis
      by (simp add: decode_chars_past decode_bytes_short)
  next
    case True
    note IH = 1[OF True refl]
    show ?thesis
    proof (cases "length binary - i < 8")
      case short: True
      then have "decode_chars binary (i + 8) = []"
        by (simp add: decode_chars_past)
      moreover from short have "decode_bytes (drop i binary) = []"
        by (simp add: decode_bytes_short)
      moreover from short have "length (slice binary i (i + 8)) \<noteq> 8"
        by (simp add: slice_def)
      ultimately show ?thesis using True
        by (simp add: decode_chars.simps[of binary i] Let_def)
    next
      case long: False
      then have len: "length (slice binary i (i + 8)) = 8"
        by (simp add: slice_def)
      from long have "decode_bytes (drop i binary) =
          fromCharCode (parseInt2 (take 8 (drop i binary))) # decode_bytes (drop 8 (drop i binary))"
        by (simp add: decode_bytes_long)
      with True IH len show ?thesis
        by (simp add: decode_chars.simps[of binary i] slice_def Let_def add.commute)
    qed
  qed
qed

lemma zero_not_standard: "ascii ''0'' \<notin> set standard_exprs"
  by (simp add: standard_exprs_eq ascii_def)

lemma bit_of_zero: "bit_of (ascii ''0'') = 48"
  by (simp add: bit_of_def zero_not_standard)

lemma logVerification_accepted: "covenantAccepted (logVerification st) = covenantAccepted st"
  by (simp add: logVerification_def)

lemma decode_cells_eq:
  "covenantAccepted st \<Longrightarrow>
   decode_cells st cells =
     Inr (map bit_of cells, st\<lparr>verificationCount := verificationCount st + count_standard cells\<rparr>)"
proof (induction cells arbitrary: st)
  case Nil
  then show ?case by (simp add: count_standard_def)
next
  case (Cons cell cells)
  show ?case
  proof (cases "cell = ascii ''0''")
    case True
    with Cons show ?thesis
      by (simp add: bit_of_zero zero_not_standard count_standard_def)
  next
    case False
    from Cons.prems have acc': "covenantAccepted (logVerification st)"
      by (simp add: logVerification_accepted)
    show ?thesis
    proof (cases "cell \<in> set standard_exprs")
      case True
      with False Cons.prems Cons.IH[OF acc'] show ?thesis
        by (simp add: verify_eq bit_of_def count_standard_def logVerification_def)
    next
      case notin: False
      with False Cons.prems Cons.IH[OF Cons.prems] show ?thesis
        by (simp add: verify_eq bit_of_def count_standard_def)
    qed
  qed
qed

lemma decode_eq:
  "covenantAccepted st \<Longrightarrow>
   decode st grid =
     Inr (decode_bytes (map bit_of (concat grid)),
          st\<lparr>verificationCount := verificationCount st + count_standard (concat grid) + 1\<rparr>)"
  by (simp add: decode_def decode_cells_eq decode_chars_eq logVerification_def)

lemma chunks_Nil: "chunks w [] = []"
  by (simp add: chunks.simps[of w "[]"])

lemma chunks_step: "0 < w \<Longrightarrow> xs \<noteq> [] \<Longrightarrow> chunks w xs = take w xs # chunks w (drop w xs)"
  by (simp add: chunks.simps[of w xs])

lemma formatAsGrid_from_eq:
  "0 < w \<Longrightarrow> formatAsGrid_from xs w i = Some (chunks w (drop i xs))"
proof (induction "length xs - i" arbitrary: i rule: less_induct)
  case less
  show ?case
  proof (cases "i < length xs")
    case False
    then show ?thesis
      by (simp add: formatAsGrid_from.simps[of xs w i] chunks_Nil)
  next
    case True
    with less.prems have "length xs - (i + w) < length xs - i" by arith
    from less.hyps[OF this less.prems] True less.prems show ?thesis
      by (simp add: formatAsGrid_from.simps[of xs w i] chunks_step[of w "drop i xs"] slice_def add.commute)
  qed
qed

lemma formatAsGrid_eq: "0 < w \<Longrightarrow> formatAsGrid xs w = Some (chunks w xs)"
  by (simp add: formatAsGrid_def formatAsGrid_from_eq)

lemma concat_chunks: "0 < w \<Longrightarrow> concat (chunks w xs) = xs"
proof (induction w xs rule: chunks.induct)
  case (1 w xs)
  then show ?case
    by (cases "xs = []") (simp_all add: chunks_Nil chunks_step)
qed

lemma encode_eq:
  "covenantAccepted st \<Longrightarrow>
   encode st text useAdvanced =
     Some (Inr (chunks 8 (encode_loop (pool useAdvanced) (binary_of text) 0), logVerification st))"
  by (simp add: encode_def formatAsGrid_eq pool_def Let_def)

subsection \<open>Evaluating \<open>encode\<close>\<close>

lemma binary_of_Nil: "binary_of [] = []"
  by (simp add: binary_of_def)

lemma binary_of_Cons: "binary_of (c # cs) = padStart (toString2 c) 8 48 @ binary_of cs"
  by (simp add: binary_of_def)

lemma length_pool: "length (pool adv) = (if adv then 21 else 16)"
  by (simp add: pool_def getStandardFractions_def getAdvancedFractions_def)

lemma map_expr_pool:
  "map expr (pool adv) = (if adv then standard_exprs @ advanced_exprs else standard_exprs)"
  by (simp add: pool_def standard_exprs_def advanced_exprs_def)

lemma expr_pool_nth: "i < length (pool adv) \<Longrightarrow> expr (pool adv ! i) = map expr (pool adv) ! i"
  by simp

lemma binary_FC: "binary_of (ascii ''FC'') = ascii ''0100011001000011''"
  by (simp add: ascii_def binary_of_Nil binary_of_Cons padStart_def toString2.simps)

lemma encode_loop_FC:
  "encode_loop (pool False) (ascii ''0100011001000011'') 0 = concat FC_grid"
  by (simp add: ascii_def FC_grid_def length_pool expr_pool_nth map_expr_pool standard_exprs_eq)

lemma chunks_FC: "chunks 8 (concat FC_grid) = FC_grid"
  by (simp add: FC_grid_def chunks_step chunks_Nil)

lemma encode_FC_value:
  "covenantAccepted st \<Longrightarrow>
   encode st (ascii ''FC'') False = Some (Inr (FC_grid, logVerification st))"
  by (simp add: encode_eq binary_FC encode_loop_FC chunks_FC)

lemma nonzero_FC: "map nonzero_positions FC_grid = [[1, 5, 6], [1, 6, 7]]"
  by (simp add: nonzero_positions_def FC_grid_def ascii_def upt_rec)

lemma pattern_FC:
  "map (\<lambda>cell. if cell = ascii ''0'' then 48 else 49) (concat FC_grid)
     = ascii ''0100011001000011''"
  by (simp add: FC_grid_def ascii_def)

subsection \<open>The tolerance of \<open>verify\<close>\<close>

text \<open>
  C4 (amended). \<open>verify\<close> has no tolerance parameter: the tolerance is the constant
  \<open>0.0001\<close>. Once the covenant is accepted, it returns true exactly when the expression is
  the text of one of the 16 standard catalogue entries and the expected value is within
  \<open>0.0001\<close> of that entry's value 1; for every other text, the root of two among them, it
  returns false whatever the expected value is.
\<close>

theorem verify_fixed_tolerance:
  "covenantAccepted st \<Longrightarrow>
   verify st e x =
     (if e \<in> set standard_exprs then Inr (\<bar>1 - x\<bar> < 0.0001, logVerification st)
      else Inr (False, st))
   \<and> verify st ([8730] @ ascii ''2'') x = Inr (False, st)"
  by (simp add: verify_eq) (simp add: standard_exprs_eq ascii_def)

theorem verify_fixed_tolerance_witness:
  "covenantAccepted demo_state
   \<and> verify demo_state (ascii ''0!'') 1 = Inr (True, logVerification demo_state)
   \<and> verify demo_state (ascii ''0!'') 1.5 = Inr (False, logVerification demo_state)
   \<and> verify demo_state ([8730] @ ascii ''2'') 1.5 = Inr (False, demo_state)"
  using verify_fixed_tolerance[OF demo_state_accepted, of "ascii ''0!''" 1]
    verify_fixed_tolerance[OF demo_state_accepted, of "ascii ''0!''" "1.5"]
  by (simp add: demo_state_accepted standard_exprs_eq ascii_def)

text \<open>
  The claim as stated fails: with the expected value \<open>1.41421356\<close> the root of two is not
  verified, since its text is not in the catalogue.
\<close>

theorem verify_sqrt2_counterexample:
  "verify demo_state ([8730] @ ascii ''2'') 1.41421356 = Inr (False, demo_state)"
  by (simp add: verify_eq demo_state_accepted standard_exprs_eq ascii_def)

subsection \<open>The grid of \<open>encode("FC")\<close>\<close>

text \<open>
  C7 (amended). \<open>encode("FC")\<close> with row width 8 returns a grid of two rows of eight cells
  in which the cells that are not the literal \<open>"0"\<close> are exactly at positions 1, 5, 6 of
  the first row and 1, 6, 7 of the second (counted from 0), matching the bit pattern
  \<open>0100011001000011\<close>.
\<close>

theorem encode_FC_grid:
  "covenantAccepted st \<Longrightarrow>
   encode st (ascii ''FC'') False = Some (Inr (FC_grid, logVerification st))
   \<and> map length FC_grid = [8, 8]
   \<and> map nonzero_positions FC_grid = [[1, 5, 6], [1, 6, 7]]
   \<and> map (\<lambda>cell. if cell = ascii ''0'' then 48 else 49) (concat FC_grid)
         = ascii ''0100011001000011''"
  by (simp add: encode_FC_value nonzero_FC pattern_FC) (simp add: FC_grid_def)

theorem encode_FC_grid_witness:
  "covenantAccepted demo_state
   \<and> encode demo_state (ascii ''FC'') False = Some (Inr (FC_grid, logVerification demo_state))
   \<and> map nonzero_positions FC_grid = [[1, 5, 6], [1, 6, 7]]"
  using encode_FC_grid[OF demo_state_accepted]
  by (simp add: demo_state_accepted)

text \<open>
  The positions the claim lists are not those of the code: position 0 of the first row is
  the literal \<open>"0"\<close>, and the first row has three cells that are not, not four.
\<close>

theorem encode_FC_positions_counterexample:
  "encode demo_state (ascii ''FC'') False = Some (Inr (FC_grid, logVerification demo_state))
   \<and> FC_grid ! 0 ! 0 = ascii ''0''
   \<and> nonzero_positions (FC_grid ! 0) \<noteq> [0, 2, 3, 6]
   \<and> nonzero_positions (FC_grid ! 1) \<noteq> [1, 2, 6, 7]"
proof -
  have "nonzero_positions (FC_grid ! 0) = [1, 5, 6]" "nonzero_positions (FC_grid ! 1) = [1, 6, 7]"
    using nonzero_FC by (simp_all add: FC_grid_def)
  then show ?thesis
    by (simp add: encode_FC_value demo_state_accepted) (simp add: FC_grid_def)
qed

subsection \<open>Grids whose cell count is not a multiple of eight\<close>

lemma length_decode_bytes: "length (decode_bytes bs) = length bs div 8"
proof (induction bs rule: decode_bytes.induct)
  case (1 bs)
  show ?case
  proof (cases "length bs < 8")
    case True
    then show ?thesis by (simp add: decode_bytes_short)
  next
    case False
    then have "length (decode_bytes (drop 8 bs)) = (length bs - 8) div 8"
      using 1 by simp
    with False show ?thesis
      by (simp add: decode_bytes_long)
  qed
qed

lemma div8_step: "8 \<le> (n::nat) \<Longrightarrow> 8 * (n div 8) - 8 = 8 * ((n - 8) div 8)"
proof -
  assume "8 \<le> n"
  then obtain k where n: "n = k + 8"
    using le_Suc_ex[of 8 n] by (auto simp: add.commute)
  show ?thesis unfolding n by simp
qed

lemma decode_bytes_take: "decode_bytes (take (8 * (length bs div 8)) bs) = decode_bytes bs"
proof (induction bs rule: decode_bytes.induct)
  case (1 bs)
  show ?case
  proof (cases "length bs < 8")
    case True
    then show ?thesis by (simp add: decode_bytes_short)
  next
    case False
    let ?m = "8 * (length bs div 8)"
    from False have m1: "8 \<le> ?m" by arith
    have m2: "?m \<le> length bs" by arith
    from False have m3: "?m - 8 = 8 * (length (drop 8 bs) div 8)"
      by (simp add: div8_step)
    note m = m1 m2 m3
    from False 1 have IH:
      "decode_bytes (take (8 * (length (drop 8 bs) div 8)) (drop 8 bs)) = decode_bytes (drop 8 bs)"
      by simp
    have "decode_bytes (take ?m bs) =
            fromCharCode (parseInt2 (take 8 (take ?m bs))) # decode_bytes (drop 8 (take ?m bs))"
      using m by (intro decode_bytes_long) simp
    also have "take 8 (take ?m bs) = take 8 bs"
      using m by (simp add: min_def)
    also have "drop 8 (take ?m bs) = take (?m - 8) (drop 8 bs)"
      by (simp add: drop_take)
    also have "decode_bytes (take (?m - 8) (drop 8 bs)) = decode_bytes (drop 8 bs)"
      using IH m(3) by simp
    finally show ?thesis
      using False by (simp add: decode_bytes_long)
  qed
qed

lemma bits_FC_extra:
  "map bit_of (concat (FC_grid @ [[ascii ''2-1'']])) = ascii ''01000110010000111''"
  by (simp add: FC_grid_def bit_of_def standard_exprs_eq ascii_def)

lemma count_FC_extra: "count_standard (concat (FC_grid @ [[ascii ''2-1'']])) = 7"
  by (simp add: FC_grid_def count_standard_def standard_exprs_eq ascii_def)

lemma decode_bytes_FC_extra: "decode_bytes (ascii ''01000110010000111'') = ascii ''FC''"
  by (simp add: ascii_def decode_bytes_long decode_bytes_short parseInt2_def)

text \<open>
  C3 (amended). \<open>decode\<close> never fails on a grid whose flattened cell count is not a
  multiple of 8: it returns normally, and the trailing cells that do not fill a group of
  eight are dropped without notice. The result has one character per complete group and is
  the result of decoding the grid cut to its complete groups.
\<close>

theorem decode_drops_trailing_cells:
  "covenantAccepted st \<Longrightarrow>
   \<exists>s st1 st2. decode st grid = Inr (s, st1)
     \<and> length s = length (concat grid) div 8
     \<and> decode st [take (8 * (length (concat grid) div 8)) (concat grid)] = Inr (s, st2)"
  using decode_bytes_take[of "map bit_of (concat grid)"]
  by (simp add: decode_eq length_decode_bytes take_map)

theorem decode_drops_trailing_cells_witness:
  "covenantAccepted demo_state
   \<and> (\<exists>s st1 st2. decode demo_state (FC_grid @ [[ascii ''2-1'']]) = Inr (s, st1)
         \<and> length s = length (concat (FC_grid @ [[ascii ''2-1'']])) div 8
         \<and> decode demo_state
               [take (8 * (length (concat (FC_grid @ [[ascii ''2-1'']])) div 8))
                  (concat (FC_grid @ [[ascii ''2-1'']]))] = Inr (s, st2))"
  using decode_drops_trailing_cells[OF demo_state_accepted, of "FC_grid @ [[ascii ''2-1'']]"]
  by (simp add: demo_state_accepted)

text \<open>
  The claim as stated fails: a grid of 17 cells, the grid of \<open>"FC"\<close> followed by a row
  of one cell, is decoded to \<open>"FC"\<close> without any error.
\<close>

theorem decode_misaligned_counterexample:
  "length (concat (FC_grid @ [[ascii ''2-1'']])) = 17
   \<and> decode demo_state (FC_grid @ [[ascii ''2-1'']])
       = Inr (ascii ''FC'', demo_state\<lparr>verificationCount := 8\<rparr>)"
  using bits_FC_extra count_FC_extra
  by (simp add: decode_eq demo_state_accepted decode_bytes_FC_extra)
     (simp add: FC_grid_def demo_state_def)

subsection \<open>Effects on the instance\<close>

lemma generateIdentitySet_state:
  "covenantAccepted st \<Longrightarrow> \<exists>ids. generateIdentitySet st name setSize = Inr (ids, st)"
  by (simp add: generateIdentitySet_def Let_def)

text \<open>
  C8 (amended). Once the covenant is accepted, no operation changes \<open>covenantAccepted\<close>
  or \<open>institutionId\<close>, and \<open>generateIdentitySet\<close> changes nothing; but \<open>encode\<close>
  adds 1 to \<open>verificationCount\<close>, \<open>verify\<close> adds 1 when the expression is the text of a
  standard catalogue entry, and \<open>decode\<close> adds 1 plus the number of cells that are such
  texts.
\<close>

theorem operations_change_only_the_counter:
  "covenantAccepted st \<Longrightarrow>
   (\<exists>grid. encode st text useAdvanced
       = Some (Inr (grid, st\<lparr>verificationCount := verificationCount st + 1\<rparr>)))
   \<and> (\<exists>ok. verify st e x
       = Inr (ok, st\<lparr>verificationCount :=
                        verificationCount st + (if e \<in> set standard_exprs then 1 else 0)\<rparr>))
   \<and> (\<exists>s. decode st cells
       = Inr (s, st\<lparr>verificationCount :=
                       verificationCount st + count_standard (concat cells) + 1\<rparr>))
   \<and> (\<exists>ids. generateIdentitySet st name setSize = Inr (ids, st))"
  by (auto simp add: encode_eq verify_eq decode_eq generateIdentitySet_state logVerification_def)

theorem operations_change_only_the_counter_witness:
  "covenantAccepted demo_state
   \<and> (\<exists>grid. encode demo_state (ascii ''FC'') False
       = Some (Inr (grid, demo_state\<lparr>verificationCount := verificationCount demo_state + 1\<rparr>)))
   \<and> (\<exists>ids. generateIdentitySet demo_state (ascii ''Alice'') 8 = Inr (ids, demo_state))"
  using operations_change_only_the_counter[OF demo_state_accepted,
      of "ascii ''FC''" False "ascii ''0!''" 1 FC_grid "ascii ''Alice''" 8]
  by (simp add: demo_state_accepted)

text \<open>
  The claim as stated fails: \<open>encode("FC")\<close> on an instance whose counter is 0 leaves the
  counter at 1.
\<close>

theorem encode_changes_state_counterexample:
  "encode demo_state (ascii ''FC'') False = Some (Inr (FC_grid, logVerification demo_state))
   \<and> verificationCount demo_state = 0
   \<and> verificationCount (logVerification demo_state) = 1
   \<and> logVerification demo_state \<noteq> demo_state"
proof -
  have "verificationCount demo_state = 0" "verificationCount (logVerification demo_state) = 1"
    by (simp_all add: logVerification_def demo_state_def)
  moreover from this have "logVerification demo_state \<noteq> demo_state"
    by auto
  ultimately show ?thesis
    by (simp add: encode_FC_value demo_state_accepted)
qed

subsection \<open>The identity set\<close>

lemma round_double_small: "n < 2 ^ 53 \<Longrightarrow> round_double n = n"
  by (simp add: round_double_def)

lemma double_sum_exact_from:
  "a + sum_list name < 2 ^ 53 \<Longrightarrow>
   foldl (\<lambda>acc char. round_double (acc + char)) a name = a + sum_list (name :: nat list)"
proof (induction name arbitrary: a)
  case Nil
  then show ?case by simp
next
  case (Cons c cs)
  from Cons.prems have small: "a + c < 2 ^ 53" by simp
  from Cons.prems have "(a + c) + sum_list cs < 2 ^ 53" by simp
  from Cons.IH[OF this] show ?case
    by (simp add: round_double_small[OF small])
qed

lemma double_sum_exact: "sum_list name < 2 ^ 53 \<Longrightarrow> double_sum name = sum_list name"
  using double_sum_exact_from[of 0 name] by (simp add: double_sum_def)

lemma lcg_step_double_exact:
  assumes "seed \<le> 968411918577"
  shows "lcg_step_double seed = (seed * 9301 + 49297) mod 233280"
proof -
  from assms have "seed * 9301 \<le> 968411918577 * 9301"
    by (rule mult_le_mono1)
  then have p: "seed * 9301 \<le> 9007199254684677" by simp
  then have "seed * 9301 < 2 ^ 53" by simp
  then have r1: "round_double (seed * 9301) = seed * 9301"
    by (rule round_double_small)
  from p have "seed * 9301 + 49297 < 2 ^ 53" by simp
  then have r2: "round_double (seed * 9301 + 49297) = seed * 9301 + 49297"
    by (rule round_double_small)
  show ?thesis
    unfolding lcg_step_double_def r1 r2 by (rule refl)
qed

lemma lcg_seed_bound: "seed \<le> 968411918577 \<Longrightarrow> lcg_seed seed k \<le> 968411918577"
proof (induction k)
  case 0
  then show ?case by simp
next
  case (Suc k)
  have "lcg_seed seed (Suc k) < 233280" by simp
  then show ?case by simp
qed

lemma lcg_seed_double_exact:
  "seed \<le> 968411918577 \<Longrightarrow> lcg_seed_double seed k = lcg_seed seed k"
proof (induction k)
  case 0
  then show ?case by simp
next
  case (Suc k)
  from Suc have "lcg_seed_double seed k = lcg_seed seed k" by simp
  moreover from Suc.prems have "lcg_seed seed k \<le> 968411918577"
    by (rule lcg_seed_bound)
  ultimately show ?case
    by (simp add: lcg_step_double_exact)
qed

lemma identity_doubles_exact:
  assumes "sum_list name \<le> 968411918577"
  shows "identity_doubles name n = identity_spec name n"
proof -
  from assms have "sum_list name < 2 ^ 53" by simp
  then have "double_sum name = sum_list name"
    by (rule double_sum_exact)
  with assms show ?thesis
    by (simp add: identity_doubles_def identity_spec_def lcg_seed_double_exact
          del: lcg_seed.simps lcg_seed_double.simps)
qed

lemma lcg_seed_double_shift:
  "lcg_seed_double (lcg_step_double seed) k = lcg_seed_double seed (Suc k)"
  by (induction k) simp_all

lemma identity_loop_eq:
  "identity_loop allFractions setSize i seed =
     map (\<lambda>k. allFractions ! (lcg_seed_double seed (Suc k) mod length allFractions))
       [0..<nat (setSize - i)]"
proof (induction allFractions setSize i seed rule: identity_loop.induct)
  case (1 allFractions setSize i seed)
  show ?case
  proof (cases "i < setSize")
    case False
    then show ?thesis
      by (simp add: identity_loop.simps[of allFractions setSize i seed])
  next
    case True
    then have n: "nat (setSize - i) = Suc (nat (setSize - (i + 1)))"
      by simp
    have first: "lcg_seed_double seed (Suc 0) = lcg_step_double seed"
      by simp
    from 1[OF True refl refl] True show ?thesis
      unfolding n map_upt_Suc
      by (simp add: identity_loop.simps[of allFractions setSize i seed] Let_def
               lcg_step_double_def[symmetric] lcg_seed_double_shift first
               del: lcg_seed_double.simps)
  qed
qed

lemma generateIdentitySet_eq:
  "covenantAccepted st \<Longrightarrow>
   generateIdentitySet st name setSize = Inr (identity_doubles name (nat setSize), st)"
  by (simp add: generateIdentitySet_def identity_doubles_def double_sum_def identity_loop_eq
        Let_def getStandardFractions_def getAdvancedFractions_def del: lcg_seed_double.simps)

lemma sum_Alice: "sum_list (ascii ''Alice'') = 478"
  by (simp add: ascii_def)

lemma lcg_seed_numeral:
  "lcg_seed seed (numeral n) = (lcg_seed seed (pred_numeral n) * 9301 + 49297) mod 233280"
proof -
  have "numeral n = Suc (pred_numeral n)"
    by (rule numeral_eq_Suc)
  then show ?thesis
    by (simp only: lcg_seed.simps)
qed

lemma upt_8: "[0..<8] = [0, 1, 2, 3, 4, 5, 6, 7]"
  by (simp add: upt_rec)

lemma lcg_Alice:
  "map (\<lambda>k. lcg_seed 478 (Suc k) mod 21) [0..<8] = [2, 6, 16, 2, 18, 4, 2, 15]"
  unfolding upt_8 by (simp add: lcg_seed_numeral)

lemma expr_all_nth:
  "i < 21 \<Longrightarrow>
   expr ((getStandardFractions @ getAdvancedFractions) ! i) = (standard_exprs @ advanced_exprs) ! i"
  using expr_pool_nth[of i True] by (simp add: length_pool map_expr_pool) (simp add: pool_def)

lemma identity_spec_exprs:
  "map expr (identity_spec name n) =
     map (\<lambda>i. (standard_exprs @ advanced_exprs) ! i)
       (map (\<lambda>k. lcg_seed (sum_list name) (Suc k) mod 21) [0..<n])"
  by (simp add: identity_spec_def expr_all_nth del: lcg_seed.simps)

lemma identity_spec_Alice:
  "map expr (identity_spec (ascii ''Alice'') 8) =
     [ascii ''|'' @ [8722] @ ascii ''1|'', ascii ''2-1'', [8747] @ ascii ''(dx)'',
      ascii ''|'' @ [8722] @ ascii ''1|'', ascii ''sin'' @ [178, 952] @ ascii '' + cos'' @ [178, 952],
      ascii ''(2+2)/4'', ascii ''|'' @ [8722] @ ascii ''1|'', [8730] @ ascii ''36/6'']"
  unfolding identity_spec_exprs sum_Alice lcg_Alice
  by (simp add: standard_exprs_eq advanced_exprs_eq ascii_def)

lemma identity_Alice:
  "map expr (identity_doubles (ascii ''Alice'') 8) =
     [ascii ''|'' @ [8722] @ ascii ''1|'', ascii ''2-1'', [8747] @ ascii ''(dx)'',
      ascii ''|'' @ [8722] @ ascii ''1|'', ascii ''sin'' @ [178, 952] @ ascii '' + cos'' @ [178, 952],
      ascii ''(2+2)/4'', ascii ''|'' @ [8722] @ ascii ''1|'', [8730] @ ascii ''36/6'']"
proof -
  have same: "identity_doubles (ascii ''Alice'') 8 = identity_spec (ascii ''Alice'') 8"
    by (rule identity_doubles_exact) (simp add: sum_Alice)
  show ?thesis
    unfolding same by (rule identity_spec_Alice)
qed

text \<open>
  Above the bound the rounding shows. A name of fifteen million code units \<open>0xFFFF\<close> has
  the sum 983025000000; the exact step from it gives the seed 150097, the step in doubles
  gives 150096, since \<open>983025000000 * 9301 + 49297\<close> is odd and lies above \<open>2^53\<close>.
  The loop started from that sum selects the entries of the seeds the doubles give.
\<close>

lemma bit_length_numeral:
  "bit_length (numeral n) = Suc (bit_length (numeral n div 2))"
  by (simp add: bit_length.simps[of "numeral n"])

lemma bit_length_0: "bit_length 0 = 0"
  by (simp add: bit_length.simps[of 0])

lemma bit_length_1: "bit_length (Suc 0) = Suc 0"
  by (simp add: bit_length.simps[of "Suc 0"] bit_length_0)

lemma lcg_steps_rounded:
  "lcg_step_double 983025000000 = 150096"
  "lcg_step_double 150096 = 144673"
  "lcg_step_double 144673 = 93830"
  by (simp add: lcg_step_double_def round_double_def Let_def bit_length_numeral bit_length_1)
     (simp_all add: lcg_step_double_exact)

lemma lcg_step_exact_differs:
  "(983025000000 * 9301 + 49297) mod 233280 = (150097::nat)"
  by simp

lemma identity_loop_rounded:
  "map expr (identity_loop (getStandardFractions @ getAdvancedFractions) 3 0 983025000000)
     = [[8730] @ ascii ''9/3'', ascii ''(2+2)/4'', ascii ''|'' @ [8722] @ ascii ''1|'']"
proof -
  have len: "length (getStandardFractions @ getAdvancedFractions) = 21"
    using length_pool[of True] by (simp add: pool_def)
  have seeds:
    "map (\<lambda>k. lcg_seed_double 983025000000 (Suc k) mod 21) [0, Suc 0, Suc (Suc 0)] = [9, 4, 2]"
    by (simp add: lcg_steps_rounded)
  have "map expr (identity_loop (getStandardFractions @ getAdvancedFractions) 3 0 983025000000)
      = map (\<lambda>i. (standard_exprs @ advanced_exprs) ! i)
          (map (\<lambda>k. lcg_seed_double 983025000000 (Suc k) mod 21) [0, Suc 0, Suc (Suc 0)])"
    unfolding identity_loop_eq len
    by (simp add: upt_rec expr_all_nth del: lcg_seed_double.simps)
  then show ?thesis
    unfolding seeds by (simp add: standard_exprs_eq advanced_exprs_eq ascii_def)
qed

text \<open>
  C5. \<open>generateIdentitySet\<close> is deterministic: on any two instances that have accepted
  the covenant, whatever their other state, a call with the same name and size returns the
  same sequence, namely the catalogue entries selected by the linear congruential generator
  seeded with the sum of the code units of the name, computed in doubles as the code does.
  For a name whose code units sum to at most 968411918577 no number is rounded and the
  sequence is that of the generator in exact integers. For \<open>("Alice", 8)\<close> the sequence
  is the one listed.
\<close>

theorem generateIdentitySet_deterministic:
  "covenantAccepted st \<Longrightarrow> covenantAccepted st' \<Longrightarrow>
   generateIdentitySet st name setSize = Inr (identity_doubles name (nat setSize), st)
   \<and> generateIdentitySet st' name setSize = Inr (identity_doubles name (nat setSize), st')
   \<and> (sum_list name \<le> 968411918577 \<longrightarrow>
        identity_doubles name (nat setSize) = identity_spec name (nat setSize))
   \<and> map expr (identity_doubles (ascii ''Alice'') 8) =
       [ascii ''|'' @ [8722] @ ascii ''1|'', ascii ''2-1'', [8747] @ ascii ''(dx)'',
        ascii ''|'' @ [8722] @ ascii ''1|'',
        ascii ''sin'' @ [178, 952] @ ascii '' + cos'' @ [178, 952],
        ascii ''(2+2)/4'', ascii ''|'' @ [8722] @ ascii ''1|'', [8730] @ ascii ''36/6'']"
  using identity_Alice by (simp add: generateIdentitySet_eq identity_doubles_exact)

theorem generateIdentitySet_deterministic_witness:
  "covenantAccepted demo_state \<and> covenantAccepted (logVerification demo_state)
   \<and> sum_list (ascii ''Alice'') \<le> 968411918577
   \<and> generateIdentitySet demo_state (ascii ''Alice'') 8
       = Inr (identity_spec (ascii ''Alice'') 8, demo_state)
   \<and> generateIdentitySet (logVerification demo_state) (ascii ''Alice'') 8
       = Inr (identity_spec (ascii ''Alice'') 8, logVerification demo_state)"
  using generateIdentitySet_deterministic[of demo_state "logVerification demo_state"
      "ascii ''Alice''" 8]
  by (simp add: demo_state_accepted logVerification_accepted sum_Alice)

subsection \<open>The covenant gate\<close>

lemma acceptCovenant_eq:
  "acceptCovenant st instId ag =
     (if truthy (humanitarianCommitment ag)
      then Inr (True, st\<lparr>covenantAccepted := True, institutionId := instId\<rparr>)
      else Inl (Error ''Covenant requires commitment to humanity's betterment''))"
  by (simp add: acceptCovenant_def)

lemma not_accepted_throws:
  assumes "\<not> covenantAccepted st"
  shows "encode st text useAdvanced
           = Some (Inl (Error ''Must accept Memorial Covenant before encoding''))"
    and "verify st e x = Inl (Error ''Must accept Memorial Covenant before verification'')"
    and "decode st grid = Inl (Error ''Must accept Memorial Covenant before decoding'')"
    and "generateIdentitySet st name setSize
           = Inl (Error ''Must accept Memorial Covenant before identity generation'')"
  using assms by (simp_all add: encode_def verify_def decode_def generateIdentitySet_def)

lemma step_accepted:
  "covenantAccepted (snd (step st c)) = (covenantAccepted st \<or> accepts c)"
proof (cases "covenantAccepted st")
  case True
  then show ?thesis
    by (cases c)
       (simp_all add: acceptCovenant_eq encode_eq verify_eq decode_eq generateIdentitySet_eq
          logVerification_def)
next
  case False
  then show ?thesis
    by (cases c) (simp_all add: acceptCovenant_eq not_accepted_throws)
qed

lemma run_accepted:
  "covenantAccepted (run st cs) = (covenantAccepted st \<or> (\<exists>c \<in> set cs. accepts c))"
  by (induction cs arbitrary: st) (auto simp add: step_accepted)

lemma constructor_not_accepted: "\<not> covenantAccepted constructor"
  by (simp add: constructor_def)

text \<open>
  C9. On a freshly constructed instance, whatever calls are made, as long as none of them is
  a successful \<open>acceptCovenant\<close> each of \<open>encode\<close>, \<open>verify\<close>, \<open>decode\<close> and
  \<open>generateIdentitySet\<close> throws its covenant error; \<open>acceptCovenant\<close> throws exactly
  when the agreement's \<open>humanitarianCommitment\<close> is not truthy; and once one call of
  \<open>acceptCovenant\<close> has succeeded, all four operations return, whatever calls came before
  or after it.
\<close>

theorem covenant_gate:
  "((\<forall>c \<in> set cs. \<not> accepts c) \<longrightarrow>
      encode (run constructor cs) text useAdvanced
        = Some (Inl (Error ''Must accept Memorial Covenant before encoding''))
      \<and> verify (run constructor cs) e x
        = Inl (Error ''Must accept Memorial Covenant before verification'')
      \<and> decode (run constructor cs) grid
        = Inl (Error ''Must accept Memorial Covenant before decoding'')
      \<and> generateIdentitySet (run constructor cs) name setSize
        = Inl (Error ''Must accept Memorial Covenant before identity generation''))
   \<and> acceptCovenant st instId ag =
        (if truthy (humanitarianCommitment ag)
         then Inr (True, st\<lparr>covenantAccepted := True, institutionId := instId\<rparr>)
         else Inl (Error ''Covenant requires commitment to humanity's betterment''))
   \<and> ((\<exists>c \<in> set cs. accepts c) \<longrightarrow>
      (\<exists>g st'. encode (run constructor cs) text useAdvanced = Some (Inr (g, st')))
      \<and> (\<exists>ok st'. verify (run constructor cs) e x = Inr (ok, st'))
      \<and> (\<exists>s st'. decode (run constructor cs) grid = Inr (s, st'))
      \<and> (\<exists>ids st'. generateIdentitySet (run constructor cs) name setSize = Inr (ids, st')))"
proof (intro conjI impI)
  assume "\<forall>c \<in> set cs. \<not> accepts c"
  then have n: "\<not> covenantAccepted (run constructor cs)"
    by (simp add: run_accepted constructor_not_accepted)
  from n show "encode (run constructor cs) text useAdvanced
        = Some (Inl (Error ''Must accept Memorial Covenant before encoding''))"
    by (rule not_accepted_throws)
  from n show "verify (run constructor cs) e x
        = Inl (Error ''Must accept Memorial Covenant before verification'')"
    by (rule not_accepted_throws)
  from n show "decode (run constructor cs) grid
        = Inl (Error ''Must accept Memorial Covenant before decoding'')"
    by (rule not_accepted_throws)
  from n show "generateIdentitySet (run constructor cs) name setSize
        = Inl (Error ''Must accept Memorial Covenant before identity generation'')"
    by (rule not_accepted_throws)
next
  show "acceptCovenant st instId ag =
        (if truthy (humanitarianCommitment ag)
         then Inr (True, st\<lparr>covenantAccepted := True, institutionId := instId\<rparr>)
         else Inl (Error ''Covenant requires commitment to humanity's betterment''))"
    by (rule acceptCovenant_eq)
next
  assume "\<exists>c \<in> set cs. accepts c"
  then have a: "covenantAccepted (run constructor cs)"
    by (simp add: run_accepted)
  from a show "\<exists>g st'. encode (run constructor cs) text useAdvanced = Some (Inr (g, st'))"
    by (simp add: encode_eq)
  from a show "\<exists>ok st'. verify (run constructor cs) e x = Inr (ok, st')"
    by (auto simp add: verify_eq)
  from a show "\<exists>s st'. decode (run constructor cs) grid = Inr (s, st')"
    by (simp add: decode_eq)
  from a show "\<exists>ids st'. generateIdentitySet (run constructor cs) name setSize = Inr (ids, st')"
    by (simp add: generateIdentitySet_eq)
qed

theorem covenant_gate_witness:
  "list_all (\<lambda>c. \<not> accepts c)
     [Encode (ascii ''FC'') False,
      AcceptCovenant JSNull \<lparr>humanitarianCommitment = JSUndefined\<rparr>]
   \<and> encode (run constructor [Encode (ascii ''FC'') False,
                                AcceptCovenant JSNull \<lparr>humanitarianCommitment = JSUndefined\<rparr>])
         (ascii ''FC'') False
       = Some (Inl (Error ''Must accept Memorial Covenant before encoding''))
   \<and> (\<exists>c \<in> set [AcceptCovenant (JSString (ascii ''Demo-Institution-2025'')) demo_agreement,
                   Decode FC_grid]. accepts c)
   \<and> (\<exists>s st'. decode (run constructor
                          [AcceptCovenant (JSString (ascii ''Demo-Institution-2025'')) demo_agreement,
                           Decode FC_grid]) FC_grid = Inr (s, st'))"
  using covenant_gate[of "[Encode (ascii ''FC'') False,
                           AcceptCovenant JSNull \<lparr>humanitarianCommitment = JSUndefined\<rparr>]"
                         "ascii ''FC''" False "ascii ''0!''" 1 FC_grid "ascii ''Alice''" 8
                         constructor JSNull demo_agreement]
    covenant_gate[of "[AcceptCovenant (JSString (ascii ''Demo-Institution-2025'')) demo_agreement,
                       Decode FC_grid]"
                         "ascii ''FC''" False "ascii ''0!''" 1 FC_grid "ascii ''Alice''" 8
                         constructor JSNull demo_agreement]
  by (simp add: demo_agreement_def)

lemma demo_state_reached:
  "acceptCovenant constructor (JSString (ascii ''Demo-Institution-2025'')) demo_agreement
     = Inr (True, demo_state)"
  by (simp add: acceptCovenant_def constructor_def demo_agreement_def demo_state_def)

subsection \<open>Characters and their eight bits\<close>

lemma is_binary_simps:
  "is_binary [] = True"
  "is_binary (c # s) = ((c = 48 \<or> c = 49) \<and> is_binary s)"
  "is_binary (s @ t) = (is_binary s \<and> is_binary t)"
  by (auto simp add: is_binary_def)

lemma is_binary_replicate: "is_binary (replicate k 48)"
  by (simp add: is_binary_def list_all_iff)

lemma is_binary_take: "is_binary s \<Longrightarrow> is_binary (take n s)"
  by (auto simp add: is_binary_def list_all_iff dest: in_set_takeD)

lemma is_binary_drop: "is_binary s \<Longrightarrow> is_binary (drop n s)"
  by (auto simp add: is_binary_def list_all_iff dest: in_set_dropD)

lemma binary_value_snoc: "binary_value (s @ [c]) = 2 * binary_value s + (c - 48)"
  by (simp add: binary_value_def)

lemma foldl_value_zeros:
  "foldl (\<lambda>acc c. 2 * acc + (c - 48)) 0 (replicate k 48) = (0::nat)"
  by (induction k) simp_all

lemma binary_value_pad: "binary_value (replicate k 48 @ s) = binary_value s"
  by (simp add: binary_value_def foldl_value_zeros)

lemma toString2_small: "n < 2 \<Longrightarrow> toString2 n = [48 + n]"
  by (simp add: toString2.simps[of n])

lemma toString2_big: "2 \<le> n \<Longrightarrow> toString2 n = toString2 (n div 2) @ [48 + n mod 2]"
  by (simp add: toString2.simps[of n])

lemma is_binary_toString2: "is_binary (toString2 n)"
proof (induction n rule: toString2.induct)
  case (1 n)
  show ?case
  proof (cases "n < 2")
    case True
    then have "n = 0 \<or> n = 1" by arith
    then show ?thesis by (auto simp add: toString2_small is_binary_simps)
  next
    case False
    have "n mod 2 = 0 \<or> n mod 2 = 1" by arith
    with False 1 show ?thesis
      by (auto simp add: toString2_big is_binary_simps)
  qed
qed

lemma binary_value_toString2: "binary_value (toString2 n) = n"
proof (induction n rule: toString2.induct)
  case (1 n)
  show ?case
  proof (cases "n < 2")
    case True
    then show ?thesis by (simp add: toString2_small binary_value_def)
  next
    case False
    with 1 have "binary_value (toString2 (n div 2)) = n div 2" by simp
    with False show ?thesis
      by (simp add: toString2_big binary_value_snoc)
  qed
qed

lemma length_toString2: "0 < k \<Longrightarrow> n < 2 ^ k \<Longrightarrow> length (toString2 n) \<le> k"
proof (induction n arbitrary: k rule: toString2.induct)
  case (1 n)
  show ?case
  proof (cases "n < 2")
    case True
    with 1(2) show ?thesis by (simp add: toString2_small)
  next
    case False
    with 1(3) have "k \<noteq> 1" by auto
    with 1(2) obtain j where k: "k = Suc j" "0 < j"
      by (cases k) auto
    from 1(3) k have "n div 2 < 2 ^ j" by auto
    with 1(1) False k have "length (toString2 (n div 2)) \<le> j" by simp
    with False k show ?thesis
      by (simp add: toString2_big)
  qed
qed

lemma length_padStart: "length (padStart s n c) = max n (length s)"
  by (simp add: padStart_def)

lemma byte_of_char:
  assumes "c < 256"
  shows "length (padStart (toString2 c) 8 48) = 8"
    and "is_binary (padStart (toString2 c) 8 48)"
    and "binary_value (padStart (toString2 c) 8 48) = c"
proof -
  from assms have "length (toString2 c) \<le> 8"
    using length_toString2[of 8 c] by simp
  then show "length (padStart (toString2 c) 8 48) = 8"
    by (simp add: length_padStart)
  show "is_binary (padStart (toString2 c) 8 48)"
    by (simp add: padStart_def is_binary_simps is_binary_replicate is_binary_toString2)
  show "binary_value (padStart (toString2 c) 8 48) = c"
    by (simp add: padStart_def binary_value_pad binary_value_toString2)
qed

lemma takeWhile_binary: "is_binary s \<Longrightarrow> takeWhile (\<lambda>c. c = 48 \<or> c = 49) s = s"
  by (simp add: is_binary_def list_all_iff)

lemma parseInt2_binary: "is_binary s \<Longrightarrow> s \<noteq> [] \<Longrightarrow> parseInt2 s = Some (binary_value s)"
  by (simp add: parseInt2_def takeWhile_binary binary_value_def)

lemma foldl_value_bound:
  "is_binary s \<Longrightarrow>
   foldl (\<lambda>acc c. 2 * acc + (c - 48)) a s < (a + 1) * 2 ^ length s"
proof (induction s arbitrary: a)
  case Nil
  then show ?case by simp
next
  case (Cons c s)
  then have c: "c - 48 \<le> 1" and s: "is_binary s"
    by (auto simp add: is_binary_simps)
  from Cons.IH[OF s, of "2 * a + (c - 48)"]
  have "foldl (\<lambda>acc c. 2 * acc + (c - 48)) (2 * a + (c - 48)) s
          < (2 * a + (c - 48) + 1) * 2 ^ length s" .
  also from c have "\<dots> \<le> (2 * a + 2) * 2 ^ length s"
    by (intro mult_le_mono1) simp
  finally show ?case by (simp add: algebra_simps)
qed

lemma binary_value_bound: "is_binary s \<Longrightarrow> binary_value s < 2 ^ length s"
  using foldl_value_bound[of s 0] by (simp add: binary_value_def)

lemma binary_of_is_binary: "is_binary (binary_of text)"
  by (induction "text")
     (simp_all add: binary_of_Nil binary_of_Cons is_binary_simps padStart_def
        is_binary_replicate is_binary_toString2)

lemma length_binary_of: "\<forall>c \<in> set text. c < 256 \<Longrightarrow> length (binary_of text) = 8 * length text"
  by (induction "text") (simp_all add: binary_of_Nil binary_of_Cons byte_of_char)

lemma decode_bytes_binary_of:
  "\<forall>c \<in> set text. c < 256 \<Longrightarrow> decode_bytes (binary_of text) = text"
proof (induction "text")
  case Nil
  then show ?case by (simp add: binary_of_Nil decode_bytes_short)
next
  case (Cons c cs)
  let ?b = "padStart (toString2 c) 8 48"
  from Cons.prems have c: "c < 256" by simp
  note b = byte_of_char[OF c]
  from b(1) have ne: "?b \<noteq> []" by auto
  have "decode_bytes (?b @ binary_of cs) =
          fromCharCode (parseInt2 (take 8 (?b @ binary_of cs)))
            # decode_bytes (drop 8 (?b @ binary_of cs))"
    using b(1) by (intro decode_bytes_long) simp
  also have "take 8 (?b @ binary_of cs) = ?b" using b(1) by simp
  also have "drop 8 (?b @ binary_of cs) = binary_of cs" using b(1) by simp
  also have "fromCharCode (parseInt2 ?b) = c"
    using c by (simp add: parseInt2_binary[OF b(2) ne] b(3))
  also have "decode_bytes (binary_of cs) = cs"
    using Cons by simp
  finally show ?case by (simp add: binary_of_Cons)
qed

subsection \<open>Round trip\<close>

lemma length_encode_loop: "length (encode_loop fs bits k) = length bits"
  by (induction bits arbitrary: k) simp_all

lemma pool_mod_less: "k mod length (pool adv) < length (pool adv)"
  by (simp add: length_pool)

lemma expr_nth_mem: "i < length fs \<Longrightarrow> expr (fs ! i) \<in> set (map expr fs)"
  by (metis length_map nth_map nth_mem)

lemma encode_loop_cells:
  "cell \<in> set (encode_loop (pool adv) bits k) \<Longrightarrow>
   cell = ascii ''0'' \<or> cell \<in> set (map expr (pool adv))"
proof (induction bits arbitrary: k)
  case Nil
  then show ?case by simp
next
  case (Cons b bits)
  have "expr (pool adv ! (k mod length (pool adv))) \<in> set (map expr (pool adv))"
    using pool_mod_less[of k adv] by (rule expr_nth_mem)
  with Cons show ?case
    by (auto split: if_splits simp del: set_map)
qed

lemma bit_of_standard: "cell \<in> set standard_exprs \<Longrightarrow> bit_of cell = 49"
  by (simp add: bit_of_def)

lemma bit_of_other: "cell \<notin> set standard_exprs \<Longrightarrow> bit_of cell = 48"
  by (simp add: bit_of_def)

lemma bits_encode_loop_standard:
  "is_binary bits \<Longrightarrow> map bit_of (encode_loop (pool False) bits k) = bits"
proof (induction bits arbitrary: k)
  case Nil
  then show ?case by simp
next
  case (Cons b bits)
  have "expr (pool False ! (k mod length (pool False))) \<in> set (map expr (pool False))"
    using pool_mod_less[of k False] by (rule expr_nth_mem)
  then have one: "bit_of (expr (pool False ! (k mod length (pool False)))) = 49"
    by (simp add: map_expr_pool bit_of_standard del: set_map)
  from Cons.prems have b: "b = 48 \<or> b = 49" and rest: "is_binary bits"
    by (simp_all add: is_binary_simps)
  from Cons.IH[OF rest] b one show ?case
    by (auto simp add: bit_of_zero)
qed

text \<open>
  C1. For every printable-ASCII string (code units 32 to 126), on an instance that has
  accepted the covenant, \<open>encode\<close> with the default pool returns a grid and \<open>decode\<close>
  of that grid returns the string unchanged.
\<close>

theorem roundtrip:
  "covenantAccepted st \<Longrightarrow> \<forall>c \<in> set text. 32 \<le> c \<and> c \<le> 126 \<Longrightarrow>
   \<exists>grid st1 st2. encode st text False = Some (Inr (grid, st1))
                   \<and> decode st1 grid = Inr (text, st2)"
proof -
  assume acc: "covenantAccepted st" and printable: "\<forall>c \<in> set text. 32 \<le> c \<and> c \<le> 126"
  let ?cells = "encode_loop (pool False) (binary_of text) 0"
  from printable have small: "\<forall>c \<in> set text. c < 256" by auto
  have enc: "encode st text False = Some (Inr (chunks 8 ?cells, logVerification st))"
    using acc by (rule encode_eq)
  have "decode_bytes (map bit_of (concat (chunks 8 ?cells))) = text"
    by (simp add: concat_chunks bits_encode_loop_standard binary_of_is_binary
          decode_bytes_binary_of[OF small])
  then have "\<exists>st2. decode (logVerification st) (chunks 8 ?cells) = Inr (text, st2)"
    using acc by (simp add: decode_eq logVerification_accepted)
  with enc show ?thesis by blast
qed

theorem roundtrip_witness:
  "covenantAccepted demo_state \<and> list_all (\<lambda>c. 32 \<le> c \<and> c \<le> 126) (ascii ''FC'')
   \<and> (\<exists>grid st1 st2. encode demo_state (ascii ''FC'') False = Some (Inr (grid, st1))
                        \<and> decode st1 grid = Inr (ascii ''FC'', st2))"
proof -
  have p: "\<forall>c \<in> set (ascii ''FC''). 32 \<le> c \<and> c \<le> 126"
    by (simp add: ascii_def)
  from roundtrip[OF demo_state_accepted p] p show ?thesis
    by (simp add: demo_state_accepted list_all_iff)
qed

subsection \<open>The shape of the grid\<close>

lemma chunks_empty_iff: "0 < w \<Longrightarrow> (chunks w xs = []) = (xs = [])"
  by (cases "xs = []") (simp_all add: chunks_Nil chunks_step)

lemma chunks_single: "0 < w \<Longrightarrow> xs \<noteq> [] \<Longrightarrow> drop w xs = [] \<Longrightarrow> chunks w xs = [xs]"
  by (simp add: chunks_step chunks_Nil)

lemma chunks_butlast_rows:
  "0 < w \<Longrightarrow> row \<in> set (butlast (chunks w xs)) \<Longrightarrow> length row = w"
proof (induction w xs rule: chunks.induct)
  case (1 w xs)
  show ?case
  proof (cases "xs = [] \<or> drop w xs = []")
    case True
    with 1(2,3) show ?thesis
      by (cases "xs = []") (simp_all add: chunks_Nil chunks_single)
  next
    case False
    then have ne: "chunks w (drop w xs) \<noteq> []"
      using 1(2) by (simp add: chunks_empty_iff)
    from False have "chunks w xs = take w xs # chunks w (drop w xs)"
      using 1(2) by (simp add: chunks_step)
    with ne 1(3) have "row = take w xs \<or> row \<in> set (butlast (chunks w (drop w xs)))"
      by simp
    then show ?thesis
    proof
      assume "row = take w xs"
      with False show ?thesis by simp
    next
      assume "row \<in> set (butlast (chunks w (drop w xs)))"
      with 1(1) 1(2) False show ?thesis by simp
    qed
  qed
qed

lemma chunks_last_row:
  "0 < w \<Longrightarrow> xs \<noteq> [] \<Longrightarrow>
   0 < length (last (chunks w xs)) \<and> length (last (chunks w xs)) \<le> w
   \<and> length xs = w * (length (chunks w xs) - 1) + length (last (chunks w xs))"
proof (induction w xs rule: chunks.induct)
  case (1 w xs)
  show ?case
  proof (cases "drop w xs = []")
    case True
    with 1(2,3) have "chunks w xs = [xs]" by (rule_tac chunks_single)
    with True 1(3) show ?thesis by simp
  next
    case False
    then have ne: "chunks w (drop w xs) \<noteq> []"
      using 1(2) by (simp add: chunks_empty_iff)
    then obtain m where m: "length (chunks w (drop w xs)) = Suc m"
      by (cases "chunks w (drop w xs)") auto
    have step: "chunks w xs = take w xs # chunks w (drop w xs)"
      using 1(2,3) by (rule chunks_step)
    from 1(1) 1(2) 1(3) False have IH:
      "0 < length (last (chunks w (drop w xs)))"
      "length (last (chunks w (drop w xs))) \<le> w"
      "length (drop w xs) = w * (length (chunks w (drop w xs)) - 1)
          + length (last (chunks w (drop w xs)))"
      by simp_all
    from False have "w < length xs" by simp
    then have "length xs = w + length (drop w xs)" by simp
    also have "\<dots> = w + (w * m + length (last (chunks w (drop w xs))))"
      using IH(3) m by simp
    finally have eq: "length xs = w * Suc m + length (last (chunks w (drop w xs)))"
      by simp
    have l: "last (chunks w xs) = last (chunks w (drop w xs))"
      using ne by (simp add: step)
    have n: "length (chunks w xs) - 1 = Suc m"
      using m by (simp add: step)
    from IH(1,2) eq show ?thesis
      unfolding l n by blast
  qed
qed

lemma chunks_rows:
  "0 < w \<Longrightarrow>
   (\<forall>row \<in> set (butlast (chunks w xs)). length row = w)
   \<and> (chunks w xs \<noteq> [] \<longrightarrow>
        0 < length (last (chunks w xs)) \<and> length (last (chunks w xs)) \<le> w
        \<and> length (last (chunks w xs)) = length xs - w * (length (chunks w xs) - 1))"
proof (intro conjI ballI impI)
  fix row assume "0 < w" "row \<in> set (butlast (chunks w xs))"
  then show "length row = w" by (rule chunks_butlast_rows)
next
  assume w: "0 < w" and "chunks w xs \<noteq> []"
  then have "xs \<noteq> []" by (simp add: chunks_empty_iff)
  note l = chunks_last_row[OF w this]
  from l show "0 < length (last (chunks w xs))" by blast
  from l show "length (last (chunks w xs)) \<le> w" by blast
  from l have "length xs = w * (length (chunks w xs) - 1) + length (last (chunks w xs))"
    by blast
  then show "length (last (chunks w xs)) = length xs - w * (length (chunks w xs) - 1)"
    by arith
qed

lemma length_binary_of_ge: "8 * length text \<le> length (binary_of text)"
  by (induction "text") (simp_all add: binary_of_Nil binary_of_Cons length_padStart)

text \<open>
  C6 (amended). For every input string, on an instance that has accepted the covenant,
  \<open>encode\<close> returns a grid whose cells, flattened, are the encoded cells in order, one
  per bit of the text's bit string (no truncation, no padding); every cell is the literal
  \<open>"0"\<close> or the text of an entry of the selected pool; every row but the last has 8
  cells and the last row holds the 1 to 8 cells that remain. The cell count is at least
  \<open>8 * length text\<close>, and equal to it when every code unit of the text is below 256.
\<close>

theorem encode_grid_structure:
  "covenantAccepted st \<Longrightarrow>
   \<exists>grid st'. encode st text useAdvanced = Some (Inr (grid, st'))
     \<and> concat grid = encode_loop (pool useAdvanced) (binary_of text) 0
     \<and> length (concat grid) = length (binary_of text)
     \<and> 8 * length text \<le> length (concat grid)
     \<and> ((\<forall>c \<in> set text. c < 256) \<longrightarrow> length (concat grid) = 8 * length text)
     \<and> (\<forall>cell \<in> set (concat grid).
            cell = ascii ''0'' \<or> cell \<in> set (map expr (pool useAdvanced)))
     \<and> (\<forall>row \<in> set (butlast grid). length row = 8)
     \<and> (grid \<noteq> [] \<longrightarrow>
            0 < length (last grid) \<and> length (last grid) \<le> 8
            \<and> length (last grid) = length (concat grid) - 8 * (length grid - 1))"
proof -
  assume acc: "covenantAccepted st"
  let ?cells = "encode_loop (pool useAdvanced) (binary_of text) 0"
  have enc: "encode st text useAdvanced = Some (Inr (chunks 8 ?cells, logVerification st))"
    using acc by (rule encode_eq)
  have flat: "concat (chunks 8 ?cells) = ?cells"
    by (simp add: concat_chunks)
  have rows: "(\<forall>row \<in> set (butlast (chunks 8 ?cells)). length row = 8)
     \<and> (chunks 8 ?cells \<noteq> [] \<longrightarrow>
          0 < length (last (chunks 8 ?cells)) \<and> length (last (chunks 8 ?cells)) \<le> 8
          \<and> length (last (chunks 8 ?cells)) = length ?cells - 8 * (length (chunks 8 ?cells) - 1))"
    by (rule chunks_rows) simp
  have cells: "\<forall>cell \<in> set ?cells. cell = ascii ''0'' \<or> cell \<in> set (map expr (pool useAdvanced))"
    using encode_loop_cells by blast
  have "(\<forall>c \<in> set text. c < 256) \<longrightarrow> length ?cells = 8 * length text"
    by (simp add: length_encode_loop length_binary_of)
  moreover have "8 * length text \<le> length ?cells"
    by (simp add: length_encode_loop length_binary_of_ge)
  ultimately show ?thesis
    using enc flat rows cells
    unfolding flat by (intro exI[of _ "chunks 8 ?cells"] exI[of _ "logVerification st"])
      (simp only: flat length_encode_loop simp_thms)
qed

lemma binary_sqrt: "binary_of [8730] = ascii ''10001000011010''"
  by (simp add: binary_of_Nil binary_of_Cons padStart_def toString2.simps ascii_def)

lemma encode_sqrt_value:
  "encode demo_state [8730] False = Some (Inr (root_sign_grid, logVerification demo_state))"
  by (simp add: encode_eq demo_state_accepted binary_sqrt)
     (simp add: ascii_def length_pool expr_pool_nth map_expr_pool standard_exprs_eq
        chunks_step chunks_Nil root_sign_grid_def)

theorem encode_grid_structure_witness:
  "covenantAccepted demo_state
   \<and> list_all (\<lambda>c. c < 256) (ascii ''FC'')
   \<and> (\<exists>grid st'. encode demo_state (ascii ''FC'') False = Some (Inr (grid, st'))
         \<and> length (concat grid) = 8 * length (ascii ''FC'')
         \<and> (\<forall>row \<in> set (butlast grid). length row = 8))"
proof -
  have small: "\<forall>c \<in> set (ascii ''FC''). c < 256"
    by (simp add: ascii_def)
  from encode_grid_structure[OF demo_state_accepted, of "ascii ''FC''" False]
  obtain grid st' where
    "encode demo_state (ascii ''FC'') False = Some (Inr (grid, st'))"
    "(\<forall>c \<in> set (ascii ''FC''). c < 256) \<longrightarrow>
       length (concat grid) = 8 * length (ascii ''FC'')"
    "\<forall>row \<in> set (butlast grid). length row = 8"
    by blast
  with small demo_state_accepted show ?thesis
    unfolding list_all_iff by blast
qed

text \<open>
  The claim as stated fails for a text with a code unit of 256 or more: the one-character
  string made of the root sign (code unit 8730, fourteen binary digits) is encoded to 14
  cells, not 8.
\<close>

theorem encode_cell_count_counterexample:
  "encode demo_state [8730] False = Some (Inr (root_sign_grid, logVerification demo_state))
   \<and> length (concat root_sign_grid) = 14
   \<and> 8 * length [8730::nat] = 8"
  by (simp add: encode_sqrt_value) (simp add: root_sign_grid_def)

subsection \<open>Different bits decode to different strings\<close>

lemma foldl_value_inj:
  "length xs = length ys \<Longrightarrow> is_binary xs \<Longrightarrow> is_binary ys \<Longrightarrow>
   foldl (\<lambda>acc c. 2 * acc + (c - 48)) a xs = foldl (\<lambda>acc c. 2 * acc + (c - 48)) b ys \<Longrightarrow>
   a = b \<and> xs = ys"
proof (induction xs ys arbitrary: a b rule: list_induct2)
  case Nil
  then show ?case by simp
next
  case (Cons x xs y ys)
  from Cons.prems have x: "x = 48 \<or> x = 49" and y: "y = 48 \<or> y = 49"
    and bx: "is_binary xs" and "by": "is_binary ys"
    by (simp_all add: is_binary_simps)
  from Cons.prems(3) have
    "foldl (\<lambda>acc c. 2 * acc + (c - 48)) (2 * a + (x - 48)) xs
       = foldl (\<lambda>acc c. 2 * acc + (c - 48)) (2 * b + (y - 48)) ys"
    by simp
  from Cons.IH[OF bx "by" this] have eq: "2 * a + (x - 48) = 2 * b + (y - 48)" and "xs = ys"
    by simp_all
  from eq x y have "a = b \<and> x = y" by arith
  with \<open>xs = ys\<close> show ?case by simp
qed

lemma binary_value_inj:
  "length xs = length ys \<Longrightarrow> is_binary xs \<Longrightarrow> is_binary ys \<Longrightarrow>
   binary_value xs = binary_value ys \<Longrightarrow> xs = ys"
  using foldl_value_inj[of xs ys 0 0] by (simp add: binary_value_def)

lemma byte_char:
  "length s = 8 \<Longrightarrow> is_binary s \<Longrightarrow> fromCharCode (parseInt2 s) = binary_value s"
proof -
  assume len: "length s = 8" and b: "is_binary s"
  from len have ne: "s \<noteq> []" by auto
  from binary_value_bound[OF b] len have "binary_value s < 256" by simp
  then show ?thesis
    by (simp add: parseInt2_binary[OF b ne])
qed

lemma decode_bytes_inj:
  "length xs = 8 * n \<Longrightarrow> length ys = 8 * n \<Longrightarrow> is_binary xs \<Longrightarrow> is_binary ys \<Longrightarrow>
   decode_bytes xs = decode_bytes ys \<Longrightarrow> xs = ys"
proof (induction n arbitrary: xs ys)
  case 0
  then show ?case by simp
next
  case (Suc n)
  from Suc.prems have lx: "8 \<le> length xs" and ly: "8 \<le> length ys" by simp_all
  from Suc.prems(5) have heads:
    "fromCharCode (parseInt2 (take 8 xs)) = fromCharCode (parseInt2 (take 8 ys))"
    and tails: "decode_bytes (drop 8 xs) = decode_bytes (drop 8 ys)"
    by (simp_all add: decode_bytes_long[OF lx] decode_bytes_long[OF ly])
  have "take 8 xs = take 8 ys"
  proof (rule binary_value_inj)
    show "length (take 8 xs) = length (take 8 ys)" using lx ly by simp
    show "is_binary (take 8 xs)" "is_binary (take 8 ys)"
      using Suc.prems by (simp_all add: is_binary_take)
    show "binary_value (take 8 xs) = binary_value (take 8 ys)"
      using heads lx ly Suc.prems(3,4) by (simp add: byte_char is_binary_take)
  qed
  moreover have "drop 8 xs = drop 8 ys"
  proof (rule Suc.IH)
    show "length (drop 8 xs) = 8 * n" using Suc.prems(1) by simp
    show "length (drop 8 ys) = 8 * n" using Suc.prems(2) by simp
    show "is_binary (drop 8 xs)" using Suc.prems(3) by (rule is_binary_drop)
    show "is_binary (drop 8 ys)" using Suc.prems(4) by (rule is_binary_drop)
    show "decode_bytes (drop 8 xs) = decode_bytes (drop 8 ys)" by (rule tails)
  qed
  ultimately have "take 8 xs @ drop 8 xs = take 8 ys @ drop 8 ys"
    by (simp only:)
  then show ?case
    by (simp only: append_take_drop_id)
qed

lemma is_binary_takeWhile: "is_binary (takeWhile (\<lambda>c. c = 48 \<or> c = 49) s)"
  by (induction s) (simp_all add: is_binary_simps)

lemma char_of_byte_small: "length s \<le> 8 \<Longrightarrow> fromCharCode (parseInt2 s) < 256"
proof -
  assume len: "length s \<le> 8"
  let ?d = "takeWhile (\<lambda>c. c = 48 \<or> c = 49) s"
  have "length ?d \<le> length s" by (rule length_takeWhile_le)
  with len have "(2::nat) ^ length ?d \<le> 2 ^ 8"
    by (intro power_increasing) simp_all
  with binary_value_bound[OF is_binary_takeWhile, of s] have "binary_value ?d < 256"
    by simp
  then show ?thesis
    by (simp add: parseInt2_def Let_def binary_value_def)
qed

lemma decode_bytes_small: "c \<in> set (decode_bytes bs) \<Longrightarrow> c < 256"
proof (induction bs rule: decode_bytes.induct)
  case (1 bs)
  show ?case
  proof (cases "length bs < 8")
    case True
    with 1(2) show ?thesis by (simp add: decode_bytes_short)
  next
    case False
    with 1(2) have "c = fromCharCode (parseInt2 (take 8 bs)) \<or> c \<in> set (decode_bytes (drop 8 bs))"
      by (simp add: decode_bytes_long)
    then show ?thesis
    proof
      assume "c = fromCharCode (parseInt2 (take 8 bs))"
      then show ?thesis using char_of_byte_small[of "take 8 bs"] by simp
    next
      assume "c \<in> set (decode_bytes (drop 8 bs))"
      with 1(1) False show ?thesis by simp
    qed
  qed
qed

lemma decode_bytes_differs:
  assumes b: "is_binary bits" and len: "length bits = length (binary_of text)"
    and ne: "bits \<noteq> binary_of text"
  shows "decode_bytes bits \<noteq> text"
proof (cases "\<forall>c \<in> set text. c < 256")
  case True
  show ?thesis
  proof
    assume d: "decode_bytes bits = text"
    have l: "length (binary_of text) = 8 * length text"
      using True by (rule length_binary_of)
    have "bits = binary_of text"
    proof (rule decode_bytes_inj)
      show "length bits = 8 * length text" using len l by (simp only:)
      show "length (binary_of text) = 8 * length text" by (rule l)
      show "is_binary bits" by (rule b)
      show "is_binary (binary_of text)" by (rule binary_of_is_binary)
      show "decode_bytes bits = decode_bytes (binary_of text)"
        unfolding decode_bytes_binary_of[OF True] by (rule d)
    qed
    with ne show False by (rule notE)
  qed
next
  case False
  then obtain c where c: "c \<in> set text" "\<not> c < 256" by blast
  show ?thesis
  proof
    assume "decode_bytes bits = text"
    with c(1) have "c \<in> set (decode_bytes bits)" by (simp only:)
    then have "c < 256" by (rule decode_bytes_small)
    with c(2) show False by (rule notE)
  qed
qed

subsection \<open>Cells that fail verification\<close>

lemma advanced_not_standard: "a \<in> set advanced_exprs \<Longrightarrow> a \<notin> set standard_exprs"
  by (auto simp add: advanced_exprs_eq standard_exprs_eq)

lemma zero_not_advanced: "ascii ''0'' \<notin> set advanced_exprs"
  by (simp add: advanced_exprs_eq ascii_def)

lemma is_binary_map_bit_of: "is_binary (map bit_of cells)"
  by (induction cells) (simp_all add: is_binary_simps bit_of_def)

lemma bits_encode_loop_advanced:
  "cell \<in> set (encode_loop (pool True) bits k) \<Longrightarrow> cell \<in> set advanced_exprs \<Longrightarrow>
   map bit_of (encode_loop (pool True) bits k) \<noteq> bits"
proof (induction bits arbitrary: k)
  case Nil
  then show ?case by simp
next
  case (Cons b bits)
  let ?e = "expr (pool True ! (k mod length (pool True)))"
  show ?case
  proof (cases "b = 49")
    case True
    then have loop: "encode_loop (pool True) (b # bits) k
                       = ?e # encode_loop (pool True) bits (k + 1)"
      by simp
    show ?thesis
    proof (cases "?e \<in> set advanced_exprs")
      case adv: True
      then have "bit_of ?e = 48"
        by (simp add: bit_of_other advanced_not_standard)
      with True show ?thesis
        unfolding loop by simp
    next
      case False
      with Cons.prems have "cell \<in> set (encode_loop (pool True) bits (k + 1))"
        unfolding loop by auto
      from Cons.IH[OF this Cons.prems(2)] show ?thesis
        unfolding loop by simp
    qed
  next
    case False
    then have loop: "encode_loop (pool True) (b # bits) k
                       = ascii ''0'' # encode_loop (pool True) bits k"
      by simp
    from Cons.prems zero_not_advanced have "cell \<in> set (encode_loop (pool True) bits k)"
      unfolding loop by auto
    from Cons.IH[OF this Cons.prems(2)] show ?thesis
      unfolding loop by simp
  qed
qed

lemma advanced_cell_changes_text:
  assumes acc: "covenantAccepted st"
    and enc: "encode st text True = Some (Inr (grid, st1))"
    and adv: "cell \<in> set (concat grid)" "cell \<in> set advanced_exprs"
    and dec: "decode st1 grid = Inr (s, st2)"
  shows "s \<noteq> text"
proof -
  let ?cells = "encode_loop (pool True) (binary_of text) 0"
  from enc have grid: "grid = chunks 8 ?cells" and st1: "st1 = logVerification st"
    by (simp_all add: encode_eq[OF acc])
  have flat: "concat grid = ?cells"
    unfolding grid by (simp add: concat_chunks)
  from acc have "covenantAccepted st1"
    by (simp add: st1 logVerification_accepted)
  from dec have s: "s = decode_bytes (map bit_of ?cells)"
    by (simp add: decode_eq[OF \<open>covenantAccepted st1\<close>] flat)
  have "is_binary (map bit_of ?cells)"
    by (rule is_binary_map_bit_of)
  moreover have "length (map bit_of ?cells) = length (binary_of text)"
    by (simp add: length_encode_loop)
  moreover have "map bit_of ?cells \<noteq> binary_of text"
    using adv unfolding flat by (rule bits_encode_loop_advanced)
  ultimately show ?thesis
    unfolding s by (rule decode_bytes_differs)
qed

lemma tampered_cell_changes_text:
  assumes acc: "covenantAccepted st"
    and enc: "encode st text False = Some (Inr (grid, st1))"
    and i: "i < length (concat grid)" "concat grid ! i \<noteq> ascii ''0''"
    and c: "c \<notin> set standard_exprs"
    and g': "concat grid' = (concat grid)[i := c]"
  shows "\<exists>s st2. decode st1 grid' = Inr (s, st2) \<and> s \<noteq> text"
proof -
  let ?cells = "encode_loop (pool False) (binary_of text) 0"
  let ?bits = "(binary_of text)[i := 48]"
  from enc have grid: "grid = chunks 8 ?cells" and st1: "st1 = logVerification st"
    by (simp_all add: encode_eq[OF acc])
  have flat: "concat grid = ?cells"
    unfolding grid by (simp add: concat_chunks)
  from acc have acc1: "covenantAccepted st1"
    by (simp add: st1 logVerification_accepted)
  have bits: "map bit_of ?cells = binary_of text"
    by (simp add: bits_encode_loop_standard binary_of_is_binary)
  from i have il: "i < length (binary_of text)"
    by (simp add: flat length_encode_loop)
  from i have "?cells ! i \<in> set ?cells" "?cells ! i \<noteq> ascii ''0''"
    by (simp_all add: flat)
  then have "?cells ! i \<in> set standard_exprs"
    using encode_loop_cells[of "?cells ! i" False "binary_of text" 0]
    by (simp add: map_expr_pool del: set_map)
  then have "bit_of (?cells ! i) = 49"
    by (rule bit_of_standard)
  moreover have "bit_of (?cells ! i) = binary_of text ! i"
    using il nth_map[of i ?cells bit_of] by (simp add: bits length_encode_loop)
  ultimately have one: "binary_of text ! i = 49"
    by simp
  have "map bit_of (concat grid') = ?bits"
    by (simp add: g' flat map_update bits bit_of_other[OF c])
  then have dec: "decode st1 grid'
      = Inr (decode_bytes ?bits,
             st1\<lparr>verificationCount := verificationCount st1 + count_standard (concat grid') + 1\<rparr>)"
    by (simp add: decode_eq[OF acc1])
  have "?bits ! i = 48" using il by simp
  with one have differ: "?bits \<noteq> binary_of text" by auto
  have "is_binary ?bits"
    using binary_of_is_binary[of "text"]
    by (auto simp add: is_binary_def list_all_iff dest: set_update_subset_insert[THEN subsetD])
  moreover have "length ?bits = length (binary_of text)" by simp
  ultimately have "decode_bytes ?bits \<noteq> text"
    using differ by (rule decode_bytes_differs)
  with dec show ?thesis by blast
qed

subsection \<open>Two grids, evaluated\<close>

lemma binary_tilde: "binary_of (ascii ''~~~'') = ascii ''011111100111111001111110''"
  by (simp add: ascii_def binary_of_Nil binary_of_Cons padStart_def toString2.simps)

lemma encode_loop_tilde:
  "encode_loop (pool True) (ascii ''011111100111111001111110'') 0 = concat tilde_grid"
  by (simp add: ascii_def tilde_grid_def length_pool expr_pool_nth map_expr_pool
        standard_exprs_eq advanced_exprs_eq)

lemma chunks_tilde: "chunks 8 (concat tilde_grid) = tilde_grid"
  by (simp add: tilde_grid_def chunks_step chunks_Nil)

lemma encode_tilde_value:
  "covenantAccepted st \<Longrightarrow>
   encode st (ascii ''~~~'') True = Some (Inr (tilde_grid, logVerification st))"
  by (simp add: encode_eq binary_tilde encode_loop_tilde chunks_tilde)

lemma bits_tilde: "map bit_of (concat tilde_grid) = ascii ''011111100111111001111000''"
  by (simp add: tilde_grid_def bit_of_def standard_exprs_eq ascii_def)

lemma count_tilde: "count_standard (concat tilde_grid) = 16"
  by (simp add: tilde_grid_def count_standard_def standard_exprs_eq ascii_def)

lemma decode_bytes_tilde: "decode_bytes (ascii ''011111100111111001111000'') = ascii ''~~x''"
  by (simp add: ascii_def decode_bytes_long decode_bytes_short parseInt2_def)

lemma decode_tilde_value:
  "covenantAccepted st \<Longrightarrow>
   decode st tilde_grid
     = Inr (ascii ''~~x'', st\<lparr>verificationCount := verificationCount st + 17\<rparr>)"
  by (simp add: decode_eq bits_tilde count_tilde decode_bytes_tilde)

lemma tilde_has_advanced: "[8747] @ ascii ''(dx)'' \<in> set (concat tilde_grid)"
  by (simp add: tilde_grid_def)

lemma integral_advanced: "[8747] @ ascii ''(dx)'' \<in> set advanced_exprs"
  by (simp add: advanced_exprs_eq ascii_def)

lemma FC_tampered_eq:
  "FC_tampered =
    [[ascii ''0'', [8730] @ ascii ''1'', ascii ''0'', ascii ''0'', ascii ''0'', ascii ''1-1'',
      ascii ''|'' @ [8722] @ ascii ''1|'', ascii ''0''],
     [ascii ''0'', ascii ''7^0'', ascii ''0'', ascii ''0'', ascii ''0'', ascii ''0'',
      ascii ''(2+2)/4'', ascii ''1/1'']]"
  by (simp add: FC_tampered_def FC_grid_def)

lemma bits_FC_tampered: "map bit_of (concat FC_tampered) = ascii ''0100001001000011''"
  by (simp add: FC_tampered_eq bit_of_def standard_exprs_eq ascii_def)

lemma count_FC_tampered: "count_standard (concat FC_tampered) = 5"
  by (simp add: FC_tampered_eq count_standard_def standard_exprs_eq ascii_def)

lemma decode_bytes_BC: "decode_bytes (ascii ''0100001001000011'') = ascii ''BC''"
  by (simp add: ascii_def decode_bytes_long decode_bytes_short parseInt2_def)

lemma decode_FC_tampered:
  "covenantAccepted st \<Longrightarrow>
   decode st FC_tampered
     = Inr (ascii ''BC'', st\<lparr>verificationCount := verificationCount st + 6\<rparr>)"
  by (simp add: decode_eq bits_FC_tampered count_FC_tampered decode_bytes_BC)

lemma decode_bytes_FC: "decode_bytes (ascii ''0100011001000011'') = ascii ''FC''"
  by (simp add: ascii_def decode_bytes_long decode_bytes_short parseInt2_def)

lemma bits_FC: "map bit_of (concat FC_grid) = ascii ''0100011001000011''"
  by (simp add: FC_grid_def bit_of_def standard_exprs_eq ascii_def)

lemma count_FC: "count_standard (concat FC_grid) = 6"
  by (simp add: FC_grid_def count_standard_def standard_exprs_eq ascii_def)

lemma one_minus_one_fails:
  "ascii ''1-1'' \<notin> set standard_exprs" "ascii ''1-1'' \<noteq> ascii ''0''"
  by (simp_all add: standard_exprs_eq ascii_def)

subsection \<open>\<open>verify\<close> knows the standard catalogue only\<close>

text \<open>
  C10. Once the covenant is accepted, \<open>verify\<close> returns false, whatever the expected
  value, for every text that is not the text of one of the 16 entries of
  \<open>getStandardFractions\<close>; every advanced expression is such a text; and when
  \<open>encode(text, true)\<close> has put an advanced expression into a cell, \<open>decode\<close> of the
  grid does not return \<open>text\<close>.
\<close>

theorem verify_rejects_non_catalogue:
  "covenantAccepted st \<Longrightarrow>
   length getStandardFractions = 16
   \<and> (e \<notin> set (map expr getStandardFractions) \<longrightarrow> verify st e x = Inr (False, st))
   \<and> (\<forall>a \<in> set (map expr getAdvancedFractions). verify st a x = Inr (False, st))
   \<and> (\<forall>grid st1 s st2.
         encode st text True = Some (Inr (grid, st1))
         \<and> (\<exists>cell \<in> set (concat grid). cell \<in> set (map expr getAdvancedFractions))
         \<and> decode st1 grid = Inr (s, st2)
         \<longrightarrow> s \<noteq> text)"
proof (intro conjI impI ballI allI)
  show "length getStandardFractions = 16"
    using length_pool[of False] by (simp add: pool_def)
next
  assume "covenantAccepted st" "e \<notin> set (map expr getStandardFractions)"
  then show "verify st e x = Inr (False, st)"
    by (simp add: verify_eq standard_exprs_def)
next
  fix a assume "covenantAccepted st" "a \<in> set (map expr getAdvancedFractions)"
  then show "verify st a x = Inr (False, st)"
    using advanced_not_standard[of a] by (simp add: verify_eq advanced_exprs_def)
next
  fix grid st1 s st2
  assume acc: "covenantAccepted st"
    and h: "encode st text True = Some (Inr (grid, st1))
         \<and> (\<exists>cell \<in> set (concat grid). cell \<in> set (map expr getAdvancedFractions))
         \<and> decode st1 grid = Inr (s, st2)"
  then obtain cell where "cell \<in> set (concat grid)" "cell \<in> set advanced_exprs"
    unfolding advanced_exprs_def by blast
  with acc h show "s \<noteq> text"
    using advanced_cell_changes_text[of st "text" grid st1 cell s st2] by blast
qed

theorem verify_rejects_non_catalogue_witness:
  "covenantAccepted demo_state
   \<and> [8747] @ ascii ''(dx)'' \<notin> set (map expr getStandardFractions)
   \<and> verify demo_state ([8747] @ ascii ''(dx)'') 1 = Inr (False, demo_state)
   \<and> encode demo_state (ascii ''~~~'') True
       = Some (Inr (tilde_grid, logVerification demo_state))
   \<and> (\<exists>cell \<in> set (concat tilde_grid). cell \<in> set (map expr getAdvancedFractions))
   \<and> decode (logVerification demo_state) tilde_grid
       = Inr (ascii ''~~x'',
              logVerification demo_state
                \<lparr>verificationCount := verificationCount (logVerification demo_state) + 17\<rparr>)
   \<and> ascii ''~~x'' \<noteq> ascii ''~~~''"
proof -
  have acc1: "covenantAccepted (logVerification demo_state)"
    by (simp add: logVerification_accepted demo_state_accepted)
  have adv: "[8747] @ ascii ''(dx)'' \<in> set (map expr getAdvancedFractions)"
    using integral_advanced by (simp add: advanced_exprs_def)
  then have notstd: "[8747] @ ascii ''(dx)'' \<notin> set (map expr getStandardFractions)"
    using advanced_not_standard[of "[8747] @ ascii ''(dx)''"]
    by (simp add: advanced_exprs_def standard_exprs_def)
  have cell: "\<exists>cell \<in> set (concat tilde_grid). cell \<in> set (map expr getAdvancedFractions)"
    using tilde_has_advanced adv by blast
  note enc = encode_tilde_value[OF demo_state_accepted]
  note dec = decode_tilde_value[OF acc1]
  note main = verify_rejects_non_catalogue[OF demo_state_accepted,
      of "[8747] @ ascii ''(dx)''" 1 "ascii ''~~~''"]
  from main notstd have "verify demo_state ([8747] @ ascii ''(dx)'') 1 = Inr (False, demo_state)"
    by blast
  moreover from main enc cell dec have "ascii ''~~x'' \<noteq> ascii ''~~~''"
    by blast
  ultimately show ?thesis
    using demo_state_accepted notstd enc cell dec by blast
qed

subsection \<open>\<open>decode\<close> on a tampered grid\<close>

text \<open>
  C2 (amended). \<open>decode\<close> never raises on a cell that fails verification: once the
  covenant is accepted it always returns, and a cell that is not the literal \<open>"0"\<close> and
  fails verification against 1 is read as bit 0. In particular, replacing one non-zero cell
  of the grid of a text by anything that is not the text of a standard catalogue entry (an
  expression evaluating to 0, say) makes \<open>decode\<close> return a string different from the
  text.
\<close>

theorem decode_reads_failed_cell_as_zero:
  "covenantAccepted st \<Longrightarrow>
   (\<exists>st'. decode st grid = Inr (decode_bytes (map bit_of (concat grid)), st'))
   \<and> (\<forall>cell. cell \<noteq> ascii ''0'' \<and> (\<exists>st'. verify st cell 1 = Inr (False, st'))
         \<longrightarrow> bit_of cell = 48)
   \<and> (\<forall>g st1 i c g'.
         encode st text False = Some (Inr (g, st1))
         \<and> i < length (concat g) \<and> concat g ! i \<noteq> ascii ''0''
         \<and> c \<notin> set (map expr getStandardFractions)
         \<and> concat g' = (concat g)[i := c]
         \<longrightarrow> (\<exists>s st2. decode st1 g' = Inr (s, st2) \<and> s \<noteq> text))"
proof (intro conjI impI allI)
  assume "covenantAccepted st"
  then show "\<exists>st'. decode st grid = Inr (decode_bytes (map bit_of (concat grid)), st')"
    by (simp add: decode_eq)
next
  fix cell
  assume acc: "covenantAccepted st"
    and "cell \<noteq> ascii ''0'' \<and> (\<exists>st'. verify st cell 1 = Inr (False, st'))"
  then have "cell \<notin> set standard_exprs"
    by (auto simp add: verify_eq[OF acc] split: if_splits)
  then show "bit_of cell = 48"
    by (rule bit_of_other)
next
  fix g st1 i c g'
  assume acc: "covenantAccepted st"
    and h: "encode st text False = Some (Inr (g, st1))
         \<and> i < length (concat g) \<and> concat g ! i \<noteq> ascii ''0''
         \<and> c \<notin> set (map expr getStandardFractions)
         \<and> concat g' = (concat g)[i := c]"
  then show "\<exists>s st2. decode st1 g' = Inr (s, st2) \<and> s \<noteq> text"
    using tampered_cell_changes_text[of st "text" g st1 i c g']
    by (simp add: standard_exprs_def)
qed

theorem decode_reads_failed_cell_as_zero_witness:
  "covenantAccepted demo_state
   \<and> encode demo_state (ascii ''FC'') False = Some (Inr (FC_grid, logVerification demo_state))
   \<and> 5 < length (concat FC_grid) \<and> concat FC_grid ! 5 \<noteq> ascii ''0''
   \<and> ascii ''1-1'' \<notin> set (map expr getStandardFractions)
   \<and> concat FC_tampered = (concat FC_grid)[5 := ascii ''1-1'']
   \<and> (\<exists>s st2. decode (logVerification demo_state) FC_tampered = Inr (s, st2)
         \<and> s \<noteq> ascii ''FC'')"
proof -
  note enc = encode_FC_value[OF demo_state_accepted]
  have i: "5 < length (concat FC_grid)" "concat FC_grid ! 5 \<noteq> ascii ''0''"
    by (simp_all add: FC_grid_def ascii_def)
  have c: "ascii ''1-1'' \<notin> set (map expr getStandardFractions)"
    using one_minus_one_fails(1) by (simp add: standard_exprs_def)
  have t: "concat FC_tampered = (concat FC_grid)[5 := ascii ''1-1'']"
    by (simp add: FC_tampered_eq) (simp add: FC_grid_def)
  from decode_reads_failed_cell_as_zero[OF demo_state_accepted, of FC_grid "ascii ''FC''"]
    enc i c t
  have "\<exists>s st2. decode (logVerification demo_state) FC_tampered = Inr (s, st2)
         \<and> s \<noteq> ascii ''FC''"
    by blast
  with demo_state_accepted enc i c t show ?thesis
    by blast
qed

text \<open>
  The claim as stated fails: the grid of \<open>"FC"\<close> with the cell \<open>"0!"\<close> replaced by
  \<open>"1-1"\<close> is decoded, without any error, to the wrong string \<open>"BC"\<close>.
\<close>

theorem decode_tampered_counterexample:
  "FC_grid ! 0 ! 5 = ascii ''0!''
   \<and> FC_tampered = FC_grid[0 := (FC_grid ! 0)[5 := ascii ''1-1'']]
   \<and> verify demo_state (ascii ''1-1'') 1 = Inr (False, demo_state)
   \<and> decode demo_state FC_grid
       = Inr (ascii ''FC'', demo_state\<lparr>verificationCount := verificationCount demo_state + 7\<rparr>)
   \<and> decode demo_state FC_tampered
       = Inr (ascii ''BC'', demo_state\<lparr>verificationCount := verificationCount demo_state + 6\<rparr>)"
proof -
  have "FC_grid ! 0 ! 5 = ascii ''0!''"
    by (simp add: FC_grid_def)
  moreover have "verify demo_state (ascii ''1-1'') 1 = Inr (False, demo_state)"
    by (simp add: verify_eq demo_state_accepted one_minus_one_fails)
  moreover have "decode demo_state FC_grid
       = Inr (ascii ''FC'', demo_state\<lparr>verificationCount := verificationCount demo_state + 7\<rparr>)"
    by (simp add: decode_eq demo_state_accepted bits_FC decode_bytes_FC count_FC)
  moreover have "decode demo_state FC_tampered
       = Inr (ascii ''BC'', demo_state\<lparr>verificationCount := verificationCount demo_state + 6\<rparr>)"
    using demo_state_accepted by (rule decode_FC_tampered)
  moreover have "FC_tampered = FC_grid[0 := (FC_grid ! 0)[5 := ascii ''1-1'']]"
    by (rule FC_tampered_def)
  ultimately show ?thesis
    by blast
qed

end
